theory Spec2Isabelle
  imports
    Complex_Main
    "HOL-Library.Stream"
    "HOL-Library.Monad_Syntax"
    "HOL-Library.Signed_Division"
begin

section \<open>Cardiac monitor and defibrillator simulator: the model of \<^verbatim>\<open>src/App.tsx\<close>\<close>

text \<open>
  Conventions of the embedding.

  \<^item> A JavaScript \<^verbatim>\<open>number\<close> is a \<^typ>\<open>real\<close>: arithmetic is exact, and the values
    \<^verbatim>\<open>NaN\<close> and \<^verbatim>\<open>Infinity\<close> do not exist. Numbers the source keeps integral
    (results of \<^verbatim>\<open>Math.floor\<close>, loop counters, array indices) are \<^typ>\<open>int\<close>.
  \<^item> A computation returns an \<^typ>\<open>'a option\<close> wherever the source could leave the
    finite numbers or the array it works on: a division or remainder by a number that is
    not a constant and is zero (JavaScript answers \<^verbatim>\<open>Infinity\<close> or \<^verbatim>\<open>NaN\<close>), the
    square root of a negative number, an
    access to a typed array outside its bounds (JavaScript answers \<^verbatim>\<open>undefined\<close> or drops
    the write), a typed array of negative length (\<^verbatim>\<open>RangeError\<close>), or a loop that never
    ends. \<^term>\<open>None\<close> stands for all of these; that a function returns \<^term>\<open>Some\<close> is
    always a theorem, never an assumption.
  \<^item> \<^verbatim>\<open>Math.random()\<close> reads a global source of randomness. The model threads that
    source through every call as the stream of the draws still to come; a random outcome
    of a run is one such stream, with every draw in \<open>[0, 1)\<close>.
\<close>

subsection \<open>Constants and helpers (lines 11--19)\<close>

definition SAMPLE_RATE :: real where
  "SAMPLE_RATE = 500"

definition BUFFER_SECONDS :: real where
  "BUFFER_SECONDS = 180"

definition clamp :: "real \<Rightarrow> real \<Rightarrow> real \<Rightarrow> real" where
  "clamp v lo hi = max lo (min hi v)"

definition js_div :: "real \<Rightarrow> real \<Rightarrow> real option" where
  "js_div x y = (if y = 0 then None else Some (x / y))"

definition js_sqrt :: "real \<Rightarrow> real option" where
  "js_sqrt x = (if x < 0 then None else Some (sqrt x))"

text \<open>The remainder operator \<^verbatim>\<open>%\<close> truncates the quotient towards zero.\<close>

definition js_trunc :: "real \<Rightarrow> int" where
  "js_trunc x = (if 0 \<le> x then \<lfloor>x\<rfloor> else \<lceil>x\<rceil>)"

definition js_rem :: "real \<Rightarrow> real \<Rightarrow> real option" where
  "js_rem x y = (if y = 0 then None else Some (x - y * of_int (js_trunc (x / y))))"

definition js_rem_int :: "int \<Rightarrow> int \<Rightarrow> int option" where
  "js_rem_int a b = (if b = 0 then None else Some (a smod b))"

subsection \<open>Randomness: \<^verbatim>\<open>randRange\<close>, \<^verbatim>\<open>jitter\<close> (lines 37--42)\<close>

type_synonym rng = "real stream"

definition rng_ok :: "rng \<Rightarrow> bool" where
  "rng_ok g = (\<forall>u \<in> sset g. 0 \<le> u \<and> u < 1)"

definition random :: "rng \<Rightarrow> real \<times> rng" where
  "random g = (shd g, stl g)"

definition randRange :: "real \<Rightarrow> real \<Rightarrow> rng \<Rightarrow> real \<times> rng" where
  "randRange a b g = (let (u, g') = random g in (a + u * (b - a), g'))"

definition jitter :: "real \<Rightarrow> real \<Rightarrow> rng \<Rightarrow> real \<times> rng" where
  "jitter base fr g = (let (r, g') = randRange (- fr) fr g in (base * (1 + r), g'))"

subsection \<open>Rhythm identifiers (lines 45--56)\<close>

datatype RhythmId = SINUS | SVT | AFIB_RVR | VT_PULSE | PVT | VF | ASYSTOLE | PEA_NARROW

subsection \<open>The outcome model: \<^verbatim>\<open>handleShock\<close> (lines 344--435)\<close>

text \<open>
  The message is a template filled with the clamped energy \<^verbatim>\<open>e\<close>; one constructor per
  template of the source, carrying the number the template prints.
\<close>

datatype message =
    NoMessage
  | DefibConverted real
  | ShockUnsuccessful real
  | SvtCardioversionSuccessful real
  | SvtCardioversionFailed real
  | SvtDegeneratedToVF
  | SvtUnsyncInappropriate
  | AfCardioversionSuccessful real
  | AfCardioversionFailed real
  | AfDegeneratedToVF
  | AfUnsyncInappropriate
  | VtCardioversionSuccessful real
  | VtCardioversionFailed real
  | VtDegeneratedToVF
  | VtUnsyncInappropriate
  | NotShockable

record ShockResult =
  appropriate :: bool
  converted :: bool
  message :: message
  nextRhythm :: RhythmId

definition handleShock :: "RhythmId \<Rightarrow> real \<Rightarrow> bool \<Rightarrow> rng \<Rightarrow> ShockResult \<times> rng" where
  "handleShock rhythm energyJ syncMode g =
    (let e = max 0 (min 360 energyJ) in
     if rhythm = VF \<or> rhythm = PVT then
       (let p = max 0.15 (min 0.88 ((e - 80) / 160));
            (u, g') = random g;
            conv = (u < p)
        in (\<lparr>appropriate = (\<not> syncMode \<or> True), converted = conv,
             message = (if conv then DefibConverted e else ShockUnsuccessful e),
             nextRhythm = (if conv then SINUS else rhythm)\<rparr>, g'))
     else if rhythm = SVT then
       (if syncMode then
          (let p = max 0.4 (min 0.95 ((e - 40) / 120));
               (u, g') = random g;
               conv = (u < p)
           in (\<lparr>appropriate = True, converted = conv,
                message = (if conv then SvtCardioversionSuccessful e else SvtCardioversionFailed e),
                nextRhythm = (if conv then SINUS else SVT)\<rparr>, g'))
        else
          (let (u, g') = random g in
           if u < 0.08 then
             (\<lparr>appropriate = False, converted = False,
               message = SvtDegeneratedToVF, nextRhythm = VF\<rparr>, g')
           else
             (\<lparr>appropriate = False, converted = False,
               message = SvtUnsyncInappropriate, nextRhythm = SVT\<rparr>, g')))
     else if rhythm = AFIB_RVR then
       (if syncMode then
          (let p = max 0.35 (min 0.85 ((e - 90) / 160));
               (u, g') = random g;
               conv = (u < p)
           in (\<lparr>appropriate = True, converted = conv,
                message = (if conv then AfCardioversionSuccessful e else AfCardioversionFailed e),
                nextRhythm = (if conv then SINUS else AFIB_RVR)\<rparr>, g'))
        else
          (let (u, g') = random g in
           if u < 0.06 then
             (\<lparr>appropriate = False, converted = False,
               message = AfDegeneratedToVF, nextRhythm = VF\<rparr>, g')
           else
             (\<lparr>appropriate = False, converted = False,
               message = AfUnsyncInappropriate, nextRhythm = AFIB_RVR\<rparr>, g')))
     else if rhythm = VT_PULSE then
       (if syncMode then
          (let p = max 0.35 (min 0.9 ((e - 80) / 160));
               (u, g') = random g;
               conv = (u < p)
           in (\<lparr>appropriate = True, converted = conv,
                message = (if conv then VtCardioversionSuccessful e else VtCardioversionFailed e),
                nextRhythm = (if conv then SINUS else VT_PULSE)\<rparr>, g'))
        else
          (let (u, g') = random g in
           if u < 0.12 then
             (\<lparr>appropriate = False, converted = False,
               message = VtDegeneratedToVF, nextRhythm = VF\<rparr>, g')
           else
             (\<lparr>appropriate = False, converted = False,
               message = VtUnsyncInappropriate, nextRhythm = VT_PULSE\<rparr>, g')))
     else if rhythm = ASYSTOLE \<or> rhythm = PEA_NARROW \<or> rhythm = SINUS then
       (\<lparr>appropriate = False, converted = False, message = NotShockable,
         nextRhythm = rhythm\<rparr>, g)
     else
       (\<lparr>appropriate = False, converted = False, message = NoMessage,
         nextRhythm = rhythm\<rparr>, g))"

subsection \<open>The Gaussian adder: \<^verbatim>\<open>addGaussian\<close> (lines 22--34)\<close>

text \<open>
  The \<^verbatim>\<open>for\<close> loop from \<^verbatim>\<open>i\<close> to \<^verbatim>\<open>end\<close>. The array is a list of its samples;
  \<^verbatim>\<open>arr[i] += v\<close> reads and writes index \<open>i\<close>, and the model answers \<^term>\<open>None\<close> if that
  index is not one of the array, or if \<^verbatim>\<open>sigmaSamples\<close>, the divisor, is zero.
\<close>

function addGaussian_loop ::
  "real list \<Rightarrow> real \<Rightarrow> real \<Rightarrow> real \<Rightarrow> int \<Rightarrow> int \<Rightarrow> real list option" where
  "addGaussian_loop arr centerIdx amplitude sigmaSamples i endIdx =
    (if i \<le> endIdx then
       (if sigmaSamples = 0 \<or> i < 0 \<or> int (length arr) \<le> i then None
        else
          (let x = (of_int i - centerIdx) / sigmaSamples in
           addGaussian_loop (arr[nat i := arr ! nat i + amplitude * exp (- 0.5 * x * x)])
             centerIdx amplitude sigmaSamples (i + 1) endIdx))
     else Some arr)"
  by pat_completeness auto
termination
  by (relation "measure (\<lambda>(arr, c, a, s, i, e). nat (e + 1 - i))") auto

declare addGaussian_loop.simps [simp del]

definition addGaussian :: "real list \<Rightarrow> real \<Rightarrow> real \<Rightarrow> real \<Rightarrow> real list option" where
  "addGaussian arr centerIdx amplitude sigmaSamples =
    (let start = max 0 \<lfloor>centerIdx - 4 * sigmaSamples\<rfloor>;
         endIdx = min (int (length arr) - 1) \<lceil>centerIdx + 4 * sigmaSamples\<rceil>
     in addGaussian_loop arr centerIdx amplitude sigmaSamples start endIdx)"

subsection \<open>Generated buffers (lines 58--61)\<close>

record GeneratedBuffer =
  buffer :: "real list"
  rPeaks :: "int list"

text \<open>\<^verbatim>\<open>new Float32Array(samples)\<close>: zero-filled; a negative length is a \<^verbatim>\<open>RangeError\<close>.\<close>

definition new_Float32Array :: "int \<Rightarrow> real list option" where
  "new_Float32Array n = (if n < 0 then None else Some (replicate (nat n) 0))"

subsection \<open>\<^verbatim>\<open>generateRegularECG\<close> (lines 64--133)\<close>

text \<open>
  The optional argument \<^verbatim>\<open>opts\<close>: every field may be absent. The constants the function
  derives from its arguments before the loop are gathered in \<open>ecg_consts\<close>; the variables
  the beat loop updates (\<^verbatim>\<open>tSec\<close>, \<^verbatim>\<open>arr\<close>, \<^verbatim>\<open>rPeaks\<close> and the randomness) in
  \<open>beat_state\<close>.
\<close>

record ecg_opts =
  opt_pWave :: "bool option"
  opt_tWave :: "bool option"
  opt_amp :: "real option"
  opt_prMsMin :: "real option"
  opt_prMsMax :: "real option"

record ecg_consts =
  c_samples :: int
  c_baseHr :: real
  c_qrsWidthMs :: real
  c_showP :: bool
  c_showT :: bool
  c_baseAmp :: real
  c_prMin :: real
  c_prMax :: real

record beat_state =
  st_t :: real
  st_arr :: "real list"
  st_rPeaks :: "int list"
  st_rng :: rng

text \<open>One pass through the body of the \<^verbatim>\<open>while\<close> loop: one beat.\<close>

definition regular_beat :: "ecg_consts \<Rightarrow> beat_state \<Rightarrow> beat_state option" where
  "regular_beat c st = do {
     let (j, g1) = jitter (c_baseHr c) 0.03 (st_rng st);
     let beatHr = clamp j 45 190;
     cycleSec \<leftarrow> js_div 60 beatHr;
     let base = \<lfloor>st_t st * SAMPLE_RATE\<rfloor>;
     let (pr, g2) = randRange (c_prMin c) (c_prMax c) g1;
     let prMs = clamp pr 80 260;
     let (q, g3) = jitter (c_qrsWidthMs c) 0.08 g2;
     let qrsMs = clamp q 50 160;
     ratio \<leftarrow> js_div 60 beatHr;
     root \<leftarrow> js_sqrt ratio;
     let qtMs = clamp (400 * root) 280 460;
     let (amp, g4) = jitter (c_baseAmp c) 0.06 g3;
     let pAmp = 0.14 * amp;
     let rAmp = 1.05 * amp;
     let sAmp = - 0.25 * amp;
     let qAmp = - 0.12 * amp;
     let tAmp = 0.32 * amp;
     let prS = \<lfloor>(prMs / 1000) * SAMPLE_RATE\<rfloor>;
     let qrsS = \<lfloor>(qrsMs / 1000) * SAMPLE_RATE\<rfloor>;
     let qtS = \<lfloor>(qtMs / 1000) * SAMPLE_RATE\<rfloor>;
     let pCenter = base + max 6 \<lfloor>of_int prS * (0.55::real)\<rfloor>;
     let qrsCenter = base + prS;
     let tCenter = base + prS + \<lfloor>of_int qtS * (0.65::real)\<rfloor>;
     a1 \<leftarrow> (if c_showP c
            then addGaussian (st_arr st) (of_int pCenter) pAmp
                   (of_int (max 3 \<lfloor>of_int qrsS * (0.35::real)\<rfloor>))
            else Some (st_arr st));
     a2 \<leftarrow> addGaussian a1 (of_int (qrsCenter - \<lfloor>of_int qrsS * (0.35::real)\<rfloor>)) qAmp
            (of_int (max 2 \<lfloor>of_int qrsS * (0.28::real)\<rfloor>));
     a3 \<leftarrow> addGaussian a2 (of_int qrsCenter) rAmp
            (of_int (max 3 \<lfloor>of_int qrsS * (0.55::real)\<rfloor>));
     a4 \<leftarrow> addGaussian a3 (of_int (qrsCenter + \<lfloor>of_int qrsS * (0.35::real)\<rfloor>)) sAmp
            (of_int (max 2 \<lfloor>of_int qrsS * (0.32::real)\<rfloor>));
     a5 \<leftarrow> (if c_showT c
            then addGaussian a4 (of_int tCenter) tAmp
                   (of_int (max 6 \<lfloor>of_int qtS * (0.22::real)\<rfloor>))
            else Some a4);
     Some \<lparr>st_t = st_t st + cycleSec, st_arr = a5,
            st_rPeaks = st_rPeaks st @ [qrsCenter], st_rng = g4\<rparr>
   }"

partial_function (option) regular_loop :: "ecg_consts \<Rightarrow> beat_state \<Rightarrow> beat_state option" where
  "regular_loop c st =
    (if st_t st * SAMPLE_RATE < of_int (c_samples c)
     then do { st' \<leftarrow> regular_beat c st; regular_loop c st' }
     else Some st)"

text \<open>
  Baseline noise and drift: the body of the \<^verbatim>\<open>for\<close> loop at sample \<open>i\<close>. In this loop
  and in the other loops over the samples, \<open>i\<close> runs from 0 to \<^verbatim>\<open>samples - 1\<close> over an
  array of \<^verbatim>\<open>samples\<close> entries, so the loop is a \<^term>\<open>fold\<close> over \<open>[0..<samples]\<close>.
\<close>

definition regular_noise_step :: "nat \<Rightarrow> real \<times> real list \<times> rng \<Rightarrow> real \<times> real list \<times> rng" where
  "regular_noise_step i s =
    (let (drift, a, g) = s;
         (drift', g1) =
           (if i mod 800 = 0
            then (let (j, h1) = jitter drift 0.2 g;
                      (r, h2) = randRange (- 0.02) 0.02 h1
                  in (clamp (j + r) (- 0.2) 0.2, h2))
            else (drift, g));
         (n, g2) = randRange (- 0.02) 0.02 g1
     in (drift', a[i := a ! i + (drift' * 0.002 + n)], g2))"

definition generateRegularECG ::
  "real \<Rightarrow> real \<Rightarrow> real \<Rightarrow> ecg_opts \<Rightarrow> rng \<Rightarrow> (GeneratedBuffer \<times> rng) option" where
  "generateRegularECG seconds hr qrsWidthMs opts g = do {
     let samples = \<lfloor>seconds * SAMPLE_RATE\<rfloor>;
     arr0 \<leftarrow> new_Float32Array samples;
     let c = \<lparr>c_samples = samples, c_baseHr = hr, c_qrsWidthMs = qrsWidthMs,
              c_showP = (opt_pWave opts \<noteq> Some False),
              c_showT = (opt_tWave opts \<noteq> Some False),
              c_baseAmp = (case opt_amp opts of Some a \<Rightarrow> a | None \<Rightarrow> 1.0),
              c_prMin = (case opt_prMsMin opts of Some a \<Rightarrow> a | None \<Rightarrow> 120),
              c_prMax = (case opt_prMsMax opts of Some a \<Rightarrow> a | None \<Rightarrow> 200)\<rparr>;
     st \<leftarrow> regular_loop c \<lparr>st_t = 0, st_arr = arr0, st_rPeaks = [], st_rng = g\<rparr>;
     let (drift, a, g') = fold regular_noise_step [0..<nat samples] (0, st_arr st, st_rng st);
     Some (\<lparr>buffer = a, rPeaks = st_rPeaks st\<rparr>, g')
   }"

subsection \<open>\<^verbatim>\<open>generateAfibRvr\<close> (lines 136--166)\<close>

definition afib_baseline_step :: "real \<Rightarrow> nat \<Rightarrow> real list \<times> rng \<Rightarrow> real list \<times> rng" where
  "afib_baseline_step fHz i s =
    (let (a, g) = s;
         t = real i / SAMPLE_RATE;
         (n, g1) = randRange (- 0.03) 0.03 g
     in (a[i := a ! i + (0.08 * sin (2 * pi * fHz * t) + n)], g1))"

definition afib_beat :: "real \<Rightarrow> beat_state \<Rightarrow> beat_state option" where
  "afib_beat meanRR st = do {
     let (x, g1) = randRange (meanRR - 0.22) (meanRR + 0.22) (st_rng st);
     let rr = clamp x 0.28 1.1;
     let rIndex = \<lfloor>st_t st * SAMPLE_RATE\<rfloor>;
     let (w, g2) = randRange 70 100 g1;
     let qrsS = \<lfloor>(w / 1000) * SAMPLE_RATE\<rfloor>;
     a1 \<leftarrow> addGaussian (st_arr st) (of_int (rIndex - \<lfloor>of_int qrsS * (0.35::real)\<rfloor>)) (- 0.12)
            (of_int (max 2 \<lfloor>of_int qrsS * (0.3::real)\<rfloor>));
     let (h, g3) = randRange 0.8 1.0 g2;
     a2 \<leftarrow> addGaussian a1 (of_int rIndex) h (of_int (max 3 \<lfloor>of_int qrsS * (0.55::real)\<rfloor>));
     a3 \<leftarrow> addGaussian a2 (of_int (rIndex + \<lfloor>of_int qrsS * (0.35::real)\<rfloor>)) (- 0.2)
            (of_int (max 2 \<lfloor>of_int qrsS * (0.32::real)\<rfloor>));
     a4 \<leftarrow> addGaussian a3 (of_int (rIndex + \<lfloor>0.22 * SAMPLE_RATE\<rfloor>)) 0.25 20;
     Some \<lparr>st_t = st_t st + rr, st_arr = a4,
            st_rPeaks = st_rPeaks st @ [rIndex], st_rng = g3\<rparr>
   }"

partial_function (option) afib_loop :: "int \<Rightarrow> real \<Rightarrow> beat_state \<Rightarrow> beat_state option" where
  "afib_loop samples meanRR st =
    (if st_t st * SAMPLE_RATE < of_int samples
     then do { st' \<leftarrow> afib_beat meanRR st; afib_loop samples meanRR st' }
     else Some st)"

definition generateAfibRvr :: "real \<Rightarrow> real \<Rightarrow> rng \<Rightarrow> (GeneratedBuffer \<times> rng) option" where
  "generateAfibRvr seconds meanHr g = do {
     let samples = \<lfloor>seconds * SAMPLE_RATE\<rfloor>;
     arr0 \<leftarrow> new_Float32Array samples;
     let (fHz, g1) = randRange 5 8 g;
     let (a, g2) = fold (afib_baseline_step fHz) [0..<nat samples] (arr0, g1);
     meanRR \<leftarrow> js_div 60 meanHr;
     st \<leftarrow> afib_loop samples meanRR \<lparr>st_t = 0, st_arr = a, st_rPeaks = [], st_rng = g2\<rparr>;
     Some (\<lparr>buffer = st_arr st, rPeaks = st_rPeaks st\<rparr>, st_rng st)
   }"

subsection \<open>\<^verbatim>\<open>generateVF\<close> (lines 169--205)\<close>

record vf_state =
  vf_f1 :: real
  vf_f2 :: real
  vf_f3 :: real
  vf_a1 :: real
  vf_a2 :: real
  vf_a3 :: real
  vf_arr :: "real list"
  vf_rng :: rng

definition vf_wander :: "vf_state \<Rightarrow> vf_state" where
  "vf_wander s =
    (let (f1, g1) = jitter (vf_f1 s) 0.05 (vf_rng s);
         (f2, g2) = jitter (vf_f2 s) 0.05 g1;
         (f3, g3) = jitter (vf_f3 s) 0.05 g2;
         (x1, g4) = jitter (vf_a1 s) 0.08 g3;
         (x2, g5) = jitter (vf_a2 s) 0.1 g4;
         (x3, g6) = jitter (vf_a3 s) 0.12 g5
     in s\<lparr>vf_f1 := f1, vf_f2 := f2, vf_f3 := f3,
           vf_a1 := max 0.3 (min 1.1 x1),
           vf_a2 := max 0.1 (min 0.8 x2),
           vf_a3 := max 0.05 (min 0.6 x3),
           vf_rng := g6\<rparr>)"

definition vf_step :: "real \<Rightarrow> real \<Rightarrow> real \<Rightarrow> nat \<Rightarrow> vf_state \<Rightarrow> vf_state" where
  "vf_step phi1 phi2 phi3 i s =
    (let t = real i / SAMPLE_RATE;
         s1 = (if i mod 500 = 0 then vf_wander s else s);
         (n, g') = randRange (- 0.05) 0.05 (vf_rng s1);
         val = vf_a1 s1 * sin (2 * pi * vf_f1 s1 * t + phi1)
             + vf_a2 s1 * sin (2 * pi * vf_f2 s1 * t + phi2)
             + vf_a3 s1 * sin (2 * pi * vf_f3 s1 * t + phi3)
             + n
     in s1\<lparr>vf_arr := (vf_arr s1)[i := val], vf_rng := g'\<rparr>)"

definition generateVF :: "real \<Rightarrow> rng \<Rightarrow> (GeneratedBuffer \<times> rng) option" where
  "generateVF seconds g = do {
     let samples = \<lfloor>seconds * SAMPLE_RATE\<rfloor>;
     arr0 \<leftarrow> new_Float32Array samples;
     let (f1, g1) = randRange 3 6 g;
     let (f2, g2) = randRange 6 9 g1;
     let (f3, g3) = randRange 9 12 g2;
     let (a1, g4) = randRange 0.5 1.0 g3;
     let (a2, g5) = randRange 0.2 0.6 g4;
     let (a3, g6) = randRange 0.1 0.4 g5;
     let (u1, g7) = random g6;
     let phi1 = u1 * pi * 2;
     let (u2, g8) = random g7;
     let phi2 = u2 * pi * 2;
     let (u3, g9) = random g8;
     let phi3 = u3 * pi * 2;
     let s = fold (vf_step phi1 phi2 phi3) [0..<nat samples]
               \<lparr>vf_f1 = f1, vf_f2 = f2, vf_f3 = f3, vf_a1 = a1, vf_a2 = a2, vf_a3 = a3,
                vf_arr = arr0, vf_rng = g9\<rparr>;
     Some (\<lparr>buffer = vf_arr s, rPeaks = []\<rparr>, vf_rng s)
   }"

subsection \<open>\<^verbatim>\<open>generateVT\<close> (lines 208--238)\<close>

record vt_state =
  vt_k :: int
  vt_arr :: "real list"
  vt_rPeaks :: "int list"
  vt_rng :: rng

definition vt_cycleSamples :: "real \<Rightarrow> int" where
  "vt_cycleSamples cycleSec = max 20 \<lfloor>cycleSec * SAMPLE_RATE\<rfloor>"

text \<open>
  One pass through the body of the \<^verbatim>\<open>for\<close> loop. \<^verbatim>\<open>Math.random()\<close> is drawn for
  \<^verbatim>\<open>isCapture\<close> only when \<^verbatim>\<open>k % captureEvery === 0\<close> (the \<^verbatim>\<open>&&\<close> short-circuits), and
  for \<^verbatim>\<open>rHeight\<close> only on a beat that is not a capture beat.
\<close>

definition vt_cycle :: "int \<Rightarrow> int \<Rightarrow> vt_state \<Rightarrow> vt_state option" where
  "vt_cycle cycleSamples captureEvery st = do {
     let base = vt_k st * cycleSamples;
     let center = of_int base + 0.32 * of_int cycleSamples;
     m \<leftarrow> js_rem_int (vt_k st) captureEvery;
     let (isCapture, g1) =
           (if m = 0 then (let (u, h) = random (vt_rng st) in (u < 0.5, h))
            else (False, vt_rng st));
     let wideScale = (if isCapture then 0.5 else 1.0);
     let (rHeight, g2) = (if isCapture then (0.85, g1) else randRange 0.9 1.2 g1);
     a1 \<leftarrow> addGaussian (vt_arr st) (center - 12 * wideScale) (- 0.18)
            (of_int (max 4 \<lfloor>6 * wideScale\<rfloor>));
     a2 \<leftarrow> addGaussian a1 center rHeight (of_int \<lfloor>18 * wideScale\<rfloor>);
     a3 \<leftarrow> addGaussian a2 (center + 12 * wideScale) (- 0.28)
            (of_int (max 4 \<lfloor>7 * wideScale\<rfloor>));
     a4 \<leftarrow> (if isCapture then addGaussian a3 (center - 2) 0.6 4 else Some a3);
     a5 \<leftarrow> addGaussian a4 (of_int base + 0.62 * of_int cycleSamples) 0.15 22;
     Some \<lparr>vt_k = vt_k st + 1, vt_arr = a5,
            vt_rPeaks = vt_rPeaks st @ [round center], vt_rng = g2\<rparr>
   }"

partial_function (option) vt_loop :: "int \<Rightarrow> int \<Rightarrow> int \<Rightarrow> vt_state \<Rightarrow> vt_state option" where
  "vt_loop samples cycleSamples captureEvery st =
    (if vt_k st * cycleSamples < samples
     then do { st' \<leftarrow> vt_cycle cycleSamples captureEvery st;
               vt_loop samples cycleSamples captureEvery st' }
     else Some st)"

definition vt_noise_step :: "nat \<Rightarrow> real list \<times> rng \<Rightarrow> real list \<times> rng" where
  "vt_noise_step i s =
    (let (a, g) = s;
         (n, g1) = randRange (- 0.02) 0.02 g
     in (a[i := a ! i + n], g1))"

definition generateVT :: "real \<Rightarrow> real \<Rightarrow> rng \<Rightarrow> (GeneratedBuffer \<times> rng) option" where
  "generateVT seconds hr g = do {
     let samples = \<lfloor>seconds * SAMPLE_RATE\<rfloor>;
     arr0 \<leftarrow> new_Float32Array samples;
     cycleSec \<leftarrow> js_div 60 hr;
     let cycleSamples = vt_cycleSamples cycleSec;
     let (x, g1) = randRange 8 16 g;
     let captureEvery = max 6 \<lfloor>x\<rfloor>;
     st \<leftarrow> vt_loop samples cycleSamples captureEvery
            \<lparr>vt_k = 0, vt_arr = arr0, vt_rPeaks = [], vt_rng = g1\<rparr>;
     let (a, g2) = fold vt_noise_step [0..<nat samples] (vt_arr st, vt_rng st);
     Some (\<lparr>buffer = a, rPeaks = vt_rPeaks st\<rparr>, g2)
   }"

subsection \<open>\<^verbatim>\<open>generateAsystole\<close>, \<^verbatim>\<open>generatePEA_narrow\<close>, \<^verbatim>\<open>generateSVT\<close> (lines 240--263)\<close>

definition asystole_step :: "nat \<Rightarrow> real list \<times> rng \<Rightarrow> real list \<times> rng" where
  "asystole_step i s =
    (let (a, g) = s;
         (n, g1) = randRange (- 0.015) 0.015 g
     in (a[i := n], g1))"

definition generateAsystole :: "real \<Rightarrow> rng \<Rightarrow> (GeneratedBuffer \<times> rng) option" where
  "generateAsystole seconds g = do {
     let samples = \<lfloor>seconds * SAMPLE_RATE\<rfloor>;
     arr0 \<leftarrow> new_Float32Array samples;
     let (a, g1) = fold asystole_step [0..<nat samples] (arr0, g);
     Some (\<lparr>buffer = a, rPeaks = []\<rparr>, g1)
   }"

definition generatePEA_narrow :: "real \<Rightarrow> real \<Rightarrow> rng \<Rightarrow> (GeneratedBuffer \<times> rng) option" where
  "generatePEA_narrow seconds hr g =
    generateRegularECG seconds hr 85
      \<lparr>opt_pWave = None, opt_tWave = None, opt_amp = Some 0.85,
       opt_prMsMin = Some 140, opt_prMsMax = Some 220\<rparr> g"

text \<open>The loop over \<^verbatim>\<open>base.rPeaks\<close> that overlays the retrograde P waves.\<close>

fun svt_retrograde :: "int list \<Rightarrow> real list \<Rightarrow> rng \<Rightarrow> (real list \<times> rng) option" where
  "svt_retrograde [] a g = Some (a, g)"
| "svt_retrograde (rp # rps) a g =
    (let (u, g1) = random g in
     if u < 0.3
     then do { a1 \<leftarrow> addGaussian a (of_int (rp + \<lfloor>0.06 * SAMPLE_RATE\<rfloor>)) (- 0.07) 8;
               svt_retrograde rps a1 g1 }
     else svt_retrograde rps a g1)"

definition generateSVT :: "real \<Rightarrow> real \<Rightarrow> rng \<Rightarrow> (GeneratedBuffer \<times> rng) option" where
  "generateSVT seconds hr g = do {
     (base, g1) \<leftarrow> generateRegularECG seconds hr 80
        \<lparr>opt_pWave = Some False, opt_tWave = None, opt_amp = Some 0.95,
         opt_prMsMin = Some 60, opt_prMsMax = Some 120\<rparr> g;
     (a, g2) \<leftarrow> svt_retrograde (rPeaks base) (buffer base) g1;
     Some (base\<lparr>buffer := a\<rparr>, g2)
   }"

subsection \<open>The scenario table: the \<^verbatim>\<open>generator\<close> of each rhythm (lines 266--341)\<close>

definition SCENARIOS_generator :: "RhythmId \<Rightarrow> rng \<Rightarrow> (GeneratedBuffer \<times> rng) option" where
  "SCENARIOS_generator rhythm g =
    (case rhythm of
       SINUS \<Rightarrow>
         (let (x, g1) = randRange (- 8) 8 g in
          generateRegularECG BUFFER_SECONDS (70 + of_int \<lfloor>x\<rfloor>) 85
            \<lparr>opt_pWave = None, opt_tWave = None, opt_amp = Some 1.0,
             opt_prMsMin = Some 120, opt_prMsMax = Some 200\<rparr> g1)
     | SVT \<Rightarrow>
         (let (x, g1) = randRange 160 210 g in
          generateSVT BUFFER_SECONDS (of_int \<lfloor>x\<rfloor>) g1)
     | AFIB_RVR \<Rightarrow>
         (let (x, g1) = randRange (- 20) 20 g in
          generateAfibRvr BUFFER_SECONDS (140 + of_int \<lfloor>x\<rfloor>) g1)
     | VT_PULSE \<Rightarrow>
         (let (x, g1) = randRange 150 185 g in
          generateVT BUFFER_SECONDS (of_int \<lfloor>x\<rfloor>) g1)
     | PVT \<Rightarrow> generateVT BUFFER_SECONDS 170 g
     | VF \<Rightarrow> generateVF BUFFER_SECONDS g
     | ASYSTOLE \<Rightarrow> generateAsystole BUFFER_SECONDS g
     | PEA_NARROW \<Rightarrow> generatePEA_narrow BUFFER_SECONDS 50 g)"

subsection \<open>The playback clock of \<^verbatim>\<open>draw\<close> (lines 521--555)\<close>

text \<open>
  The part of a frame that decides which samples are read. \<open>visibleSec\<close> is line 469;
  \<open>draw_scroll\<close> is the new value of \<^verbatim>\<open>scroll.current\<close> (line 531) after \<^verbatim>\<open>dt\<close> seconds;
  \<open>draw_startIdx\<close> is \<^verbatim>\<open>startIdx\<close> (line 542); \<open>draw_idx\<close> is \<^verbatim>\<open>idx\<close> for the column
  \<^verbatim>\<open>px\<close> of a canvas \<^verbatim>\<open>w\<close> pixels wide (lines 548--550), and \<open>draw_sample\<close> the read
  \<^verbatim>\<open>buffer[idx]\<close> of line 551, \<^term>\<open>None\<close> when \<^verbatim>\<open>idx\<close> is not an index of the buffer.
\<close>

definition visibleSec :: "int \<Rightarrow> real" where
  "visibleSec speed = (if speed = 25 then 6 else 3)"

definition draw_scroll :: "real list \<Rightarrow> real \<Rightarrow> real \<Rightarrow> real option" where
  "draw_scroll buf scroll dt = js_rem (scroll + dt * SAMPLE_RATE) (real (length buf))"

definition draw_startIdx :: "real list \<Rightarrow> real \<Rightarrow> int option" where
  "draw_startIdx buf scroll = js_rem_int \<lfloor>scroll\<rfloor> (int (length buf))"

definition draw_idx :: "real list \<Rightarrow> int \<Rightarrow> int \<Rightarrow> int \<Rightarrow> int \<Rightarrow> int option" where
  "draw_idx buf speed w startIdx px = do {
     let visSamples = \<lfloor>visibleSec speed * SAMPLE_RATE\<rfloor>;
     frac \<leftarrow> js_div (of_int px) (of_int w);
     let sampleOffset = \<lfloor>frac * of_int visSamples\<rfloor>;
     js_rem_int (startIdx + sampleOffset) (int (length buf))
   }"

definition draw_sample :: "real list \<Rightarrow> int \<Rightarrow> int \<Rightarrow> int \<Rightarrow> int \<Rightarrow> real option" where
  "draw_sample buf speed w startIdx px = do {
     idx \<leftarrow> draw_idx buf speed w startIdx px;
     if 0 \<le> idx \<and> idx < int (length buf) then Some (buf ! nat idx) else None
   }"

section \<open>Properties\<close>

text \<open>
  A random outcome is a stream \<open>g\<close> with \<^term>\<open>rng_ok g\<close>. Where a statement speaks of a
  probability, the theorem gives the event as a set of values of the one draw that decides
  it: that set is an interval \<open>[0, p)\<close> of \<open>[0, 1)\<close>, and \<open>p\<close>, its length, is the
  probability of the event under a uniform draw.
\<close>

subsection \<open>The outcome model\<close>

text \<open>
  C2. On VF and on PVT, whatever the energy and the synchronisation flag, the shock is
  appropriate. With \<open>E\<close> the energy clamped to \<open>[0, 360]\<close> and
  \<open>p = clamp ((E - 80) / 160) 0.15 0.88\<close>, the shock converts exactly when the draw
  of \<^verbatim>\<open>Math.random()\<close> is below \<open>p\<close>: of the draws in \<open>[0, 1)\<close>, those that convert
  are the interval \<open>[0, p)\<close>, whose length, the probability of conversion under a uniform
  draw, is \<open>p\<close>. The next rhythm is SINUS after a conversion and the input rhythm
  otherwise.
\<close>

theorem handleShock_VF_PVT:
  assumes "rhythm = VF \<or> rhythm = PVT"
  shows "let E = clamp energyJ 0 360;
             p = clamp ((E - 80) / 160) 0.15 0.88;
             r = fst (handleShock rhythm energyJ syncMode g)
         in appropriate r
          \<and> (converted r \<longleftrightarrow> shd g < p)
          \<and> {u \<in> {0..<1}. converted (fst (handleShock rhythm energyJ syncMode (u ## g)))} = {0..<p}
          \<and> 0.15 \<le> p \<and> p \<le> 0.88
          \<and> nextRhythm r = (if converted r then SINUS else rhythm)"
proof -
  define p where "p = clamp ((clamp energyJ 0 360 - 80) / 160) 0.15 0.88"
  have b: "0.15 \<le> p" "p \<le> 0.88"
    by (simp_all add: p_def clamp_def)
  have r: "fst (handleShock rhythm energyJ syncMode h) =
      \<lparr>appropriate = True, converted = (shd h < p),
        message = (if shd h < p then DefibConverted (clamp energyJ 0 360)
                   else ShockUnsuccessful (clamp energyJ 0 360)),
        nextRhythm = (if shd h < p then SINUS else rhythm)\<rparr>" for h
    using assms
    by (elim disjE;
        simp only: handleShock_def Let_def random_def prod.case fst_conv RhythmId.distinct
          simp_thms if_True if_False p_def clamp_def)
  have s: "{u \<in> {0..<1}. u < p} = {0..<p}"
    using b by auto
  show ?thesis
    unfolding Let_def p_def [symmetric] r
    using b s by simp
qed

theorem handleShock_VF_PVT_witness:
  "(VF = VF \<or> VF = PVT)
   \<and> appropriate (fst (handleShock VF 240 True (sconst (1/2))))
   \<and> converted (fst (handleShock VF 240 True (sconst (1/2))))
   \<and> nextRhythm (fst (handleShock VF 240 True (sconst (1/2)))) = SINUS
   \<and> {u \<in> {0..<1}. converted (fst (handleShock VF 240 True (u ## sconst (1/2))))} = {0..<0.88}"
proof -
  have h: "VF = VF \<or> VF = PVT" by simp
  have p: "clamp ((clamp 240 0 360 - 80) / 160) 0.15 0.88 = 0.88"
    by (simp add: clamp_def)
  show ?thesis
    using handleShock_VF_PVT [OF h, of 240 True "sconst (1/2)"]
    unfolding Let_def p by simp
qed

text \<open>
  C3. On SINUS, ASYSTOLE and PEA\_NARROW, whatever the energy and the synchronisation
  flag, the shock is not appropriate, nothing converts and the rhythm stays the same.
\<close>

theorem handleShock_not_shockable:
  assumes "rhythm = SINUS \<or> rhythm = ASYSTOLE \<or> rhythm = PEA_NARROW"
  shows "let r = fst (handleShock rhythm energyJ syncMode g)
         in \<not> appropriate r \<and> \<not> converted r \<and> nextRhythm r = rhythm"
  using assms
  by (elim disjE;
      simp only: handleShock_def Let_def fst_conv RhythmId.distinct simp_thms if_True if_False
        ShockResult.select_convs)

theorem handleShock_not_shockable_witness:
  "(ASYSTOLE = SINUS \<or> ASYSTOLE = ASYSTOLE \<or> ASYSTOLE = PEA_NARROW)
   \<and> \<not> appropriate (fst (handleShock ASYSTOLE 360 True (sconst (1/2))))
   \<and> \<not> converted (fst (handleShock ASYSTOLE 360 True (sconst (1/2))))
   \<and> nextRhythm (fst (handleShock ASYSTOLE 360 True (sconst (1/2)))) = ASYSTOLE"
proof -
  have h: "ASYSTOLE = SINUS \<or> ASYSTOLE = ASYSTOLE \<or> ASYSTOLE = PEA_NARROW" by simp
  show ?thesis
    using handleShock_not_shockable [OF h, of 360 True "sconst (1/2)"]
    by (simp add: Let_def)
qed

text \<open>
  C4. The energy is clamped to \<open>[0, 360]\<close> before any use: for every rhythm, every
  synchronisation flag, every energy and the same random draws, the whole result (flags,
  next rhythm, message and the randomness left over) is the one of the call with the
  clamped energy. In particular 1000 J on VF behaves as 360 J does.
\<close>

theorem handleShock_energy_clamped:
  "handleShock rhythm energyJ syncMode g = handleShock rhythm (clamp energyJ 0 360) syncMode g
   \<and> handleShock VF 1000 False g = handleShock VF 360 False g"
proof -
  have i: "max 0 (min 360 (max 0 (min 360 energyJ))) = max 0 (min 360 energyJ)"
    by simp
  have j: "max 0 (min 360 (1000::real)) = max 0 (min 360 360)"
    by simp
  show ?thesis
    unfolding handleShock_def clamp_def i j by (rule conjI; rule refl)
qed

theorem handleShock_energy_clamped_witness:
  "handleShock VF 1000 False (sconst (1/2)) = handleShock VF 360 False (sconst (1/2))
   \<and> handleShock SVT (-5) True (sconst (1/2)) = handleShock SVT 0 True (sconst (1/2))"
proof -
  have c: "clamp (-5) 0 360 = 0"
    by (simp add: clamp_def)
  show ?thesis
    using handleShock_energy_clamped [of VF 1000 False "sconst (1/2)"]
      handleShock_energy_clamped [of SVT "-5" True "sconst (1/2)"]
    unfolding c by simp
qed

text \<open>
  C5. An unsynchronised shock on SVT, whatever the energy, is never appropriate and never
  converts. It degrades the rhythm to VF exactly when the draw of \<^verbatim>\<open>Math.random()\<close> is
  below 0.08 (of the draws in \<open>[0, 1)\<close>, the interval \<open>[0, 0.08)\<close>: probability 0.08) and
  leaves it SVT otherwise.
\<close>

theorem handleShock_SVT_unsync:
  "let r = fst (handleShock SVT energyJ False g)
   in \<not> appropriate r \<and> \<not> converted r
    \<and> nextRhythm r = (if shd g < 0.08 then VF else SVT)
    \<and> {u \<in> {0..<1}. nextRhythm (fst (handleShock SVT energyJ False (u ## g))) = VF} = {0..<0.08}
    \<and> {u \<in> {0..<1}. nextRhythm (fst (handleShock SVT energyJ False (u ## g))) = SVT} = {0.08..<1}"
proof -
  have r: "fst (handleShock SVT energyJ False h) =
      (if shd h < 0.08
       then \<lparr>appropriate = False, converted = False, message = SvtDegeneratedToVF,
             nextRhythm = VF\<rparr>
       else \<lparr>appropriate = False, converted = False, message = SvtUnsyncInappropriate,
             nextRhythm = SVT\<rparr>)" for h
    by (simp add: handleShock_def Let_def random_def)
  have s: "{u \<in> {0..<1}. u < 0.08} = {0..<0.08::real}"
          "{u \<in> {0..<1}. \<not> u < 0.08} = {0.08..<1::real}"
    by auto
  have t: "(nextRhythm (if c then \<lparr>appropriate = False, converted = False,
              message = SvtDegeneratedToVF, nextRhythm = VF\<rparr>
            else \<lparr>appropriate = False, converted = False, message = SvtUnsyncInappropriate,
              nextRhythm = SVT\<rparr>) = VF) = c"
          "(nextRhythm (if c then \<lparr>appropriate = False, converted = False,
              message = SvtDegeneratedToVF, nextRhythm = VF\<rparr>
            else \<lparr>appropriate = False, converted = False, message = SvtUnsyncInappropriate,
              nextRhythm = SVT\<rparr>) = SVT) = (\<not> c)" for c
    by simp_all
  show ?thesis
    unfolding Let_def r t stream.sel
    using s by simp
qed

theorem handleShock_SVT_unsync_witness:
  "\<not> appropriate (fst (handleShock SVT 200 False (sconst (1/2))))
   \<and> \<not> converted (fst (handleShock SVT 200 False (sconst (1/2))))
   \<and> nextRhythm (fst (handleShock SVT 200 False (sconst (1/2)))) = SVT
   \<and> nextRhythm (fst (handleShock SVT 200 False (sconst (1/16)))) = VF"
  using handleShock_SVT_unsync [of 200 "sconst (1/2)"]
    handleShock_SVT_unsync [of 200 "sconst (1/16)"]
  unfolding Let_def by simp

text \<open>
  C10. For every rhythm, energy, synchronisation flag and random outcome: a result that
  reports a conversion also reports an appropriate shock and SINUS as the next rhythm;
  and the next rhythm is always the input rhythm, SINUS or VF.
\<close>

theorem handleShock_result_invariant:
  "let r = fst (handleShock rhythm energyJ syncMode g)
   in (converted r \<longrightarrow> appropriate r \<and> nextRhythm r = SINUS)
    \<and> (nextRhythm r = rhythm \<or> nextRhythm r = SINUS \<or> nextRhythm r = VF)"
  by (cases rhythm; cases syncMode;
      simp only: handleShock_def Let_def random_def prod.case fst_conv RhythmId.distinct
        simp_thms if_True if_False ShockResult.select_convs split: if_split)

theorem handleShock_result_invariant_witness:
  "converted (fst (handleShock PVT 240 False (sconst (1/2))))
   \<and> appropriate (fst (handleShock PVT 240 False (sconst (1/2))))
   \<and> nextRhythm (fst (handleShock PVT 240 False (sconst (1/2)))) = SINUS"
proof -
  have p: "(1/2::real) < max 0.15 (min 0.88 ((max 0 (min 360 240) - 80) / 160))"
    by simp
  have c: "converted (fst (handleShock PVT 240 False (sconst (1/2))))"
    using p
    by (simp only: handleShock_def Let_def random_def prod.case fst_conv RhythmId.distinct
        simp_thms if_True if_False ShockResult.select_convs siterate.sel)
  show ?thesis
    using c handleShock_result_invariant [of PVT 240 False "sconst (1/2)"]
    by (simp only: Let_def simp_thms)
qed

text \<open>
  X2. The organised rhythms SVT, AFIB\_RVR and VT\_PULSE. A synchronised shock is
  appropriate and converts to SINUS exactly when the draw is below the rhythm's clamped
  ramp in the clamped energy \<open>E\<close>, leaving the rhythm unchanged otherwise. An unsynchronised
  shock is not appropriate, never converts, and degrades the rhythm to VF exactly when the
  draw is below 0.08, 0.06 and 0.12 respectively.
\<close>

theorem handleShock_organised:
  "let E = clamp energyJ 0 360;
       s = (\<lambda>rhythm. fst (handleShock rhythm energyJ True g));
       u = (\<lambda>rhythm. fst (handleShock rhythm energyJ False g))
   in appropriate (s SVT)
    \<and> (converted (s SVT) \<longleftrightarrow> shd g < clamp ((E - 40) / 120) 0.4 0.95)
    \<and> nextRhythm (s SVT) = (if converted (s SVT) then SINUS else SVT)
    \<and> appropriate (s AFIB_RVR)
    \<and> (converted (s AFIB_RVR) \<longleftrightarrow> shd g < clamp ((E - 90) / 160) 0.35 0.85)
    \<and> nextRhythm (s AFIB_RVR) = (if converted (s AFIB_RVR) then SINUS else AFIB_RVR)
    \<and> appropriate (s VT_PULSE)
    \<and> (converted (s VT_PULSE) \<longleftrightarrow> shd g < clamp ((E - 80) / 160) 0.35 0.9)
    \<and> nextRhythm (s VT_PULSE) = (if converted (s VT_PULSE) then SINUS else VT_PULSE)
    \<and> \<not> appropriate (u SVT) \<and> \<not> converted (u SVT)
    \<and> nextRhythm (u SVT) = (if shd g < 0.08 then VF else SVT)
    \<and> \<not> appropriate (u AFIB_RVR) \<and> \<not> converted (u AFIB_RVR)
    \<and> nextRhythm (u AFIB_RVR) = (if shd g < 0.06 then VF else AFIB_RVR)
    \<and> \<not> appropriate (u VT_PULSE) \<and> \<not> converted (u VT_PULSE)
    \<and> nextRhythm (u VT_PULSE) = (if shd g < 0.12 then VF else VT_PULSE)"
  by (simp only: handleShock_def Let_def random_def prod.case fst_conv RhythmId.distinct
        simp_thms if_True if_False ShockResult.select_convs clamp_def if_distrib [of nextRhythm]
        if_distrib [of appropriate] if_distrib [of converted] if_distrib [of fst] if_cancel refl)

theorem handleShock_organised_witness:
  "appropriate (fst (handleShock SVT 100 True (sconst (1/4))))
   \<and> converted (fst (handleShock SVT 100 True (sconst (1/4))))
   \<and> nextRhythm (fst (handleShock SVT 100 True (sconst (1/4)))) = SINUS
   \<and> nextRhythm (fst (handleShock VT_PULSE 100 False (sconst (1/16)))) = VF
   \<and> nextRhythm (fst (handleShock AFIB_RVR 100 False (sconst (1/16)))) = AFIB_RVR"
proof -
  have c: "clamp ((clamp 100 0 360 - 40) / 120) 0.4 0.95 = 1/2"
    by (simp add: clamp_def)
  show ?thesis
    using handleShock_organised [of 100 "sconst (1/4)"] handleShock_organised [of 100 "sconst (1/16)"]
    unfolding Let_def c by simp
qed

subsection \<open>The Gaussian adder\<close>

lemma addGaussian_loop_spec:
  assumes "sigmaSamples \<noteq> 0" "0 \<le> i" "e < int (length arr)"
  shows "\<exists>arr'. addGaussian_loop arr c a sigmaSamples i e = Some arr'
           \<and> length arr' = length arr
           \<and> (\<forall>j < length arr. arr' ! j =
                (if i \<le> int j \<and> int j \<le> e
                 then arr ! j + a * exp (- 0.5 * ((real j - c) / sigmaSamples)\<^sup>2)
                 else arr ! j))"
  using assms
proof (induction arr c a sigmaSamples i e rule: addGaussian_loop.induct)
  case (1 arr c a s i e)
  show ?case
  proof (cases "i \<le> e")
    case False
    then show ?thesis
      by (subst addGaussian_loop.simps) auto
  next
    case True
    define x where "x = (of_int i - c) / s"
    define arr1 where "arr1 = arr[nat i := arr ! nat i + a * exp (- 0.5 * x * x)]"
    have inb: "\<not> (s = 0 \<or> i < 0 \<or> int (length arr) \<le> i)"
      using True 1 by auto
    have len1: "length arr1 = length arr" by (simp add: arr1_def)
    from 1 True inb
    have "\<exists>arr'. addGaussian_loop arr1 c a s (i + 1) e = Some arr'
           \<and> length arr' = length arr1
           \<and> (\<forall>j < length arr1. arr' ! j =
                (if i + 1 \<le> int j \<and> int j \<le> e
                 then arr1 ! j + a * exp (- 0.5 * ((real j - c) / s)\<^sup>2)
                 else arr1 ! j))"
      unfolding arr1_def x_def by (intro "1.IH") (auto simp: Let_def)
    then obtain arr' where r: "addGaussian_loop arr1 c a s (i + 1) e = Some arr'"
      and l: "length arr' = length arr1"
      and v: "\<And>j. j < length arr1 \<Longrightarrow> arr' ! j =
                (if i + 1 \<le> int j \<and> int j \<le> e
                 then arr1 ! j + a * exp (- 0.5 * ((real j - c) / s)\<^sup>2)
                 else arr1 ! j)"
      by blast
    have step: "addGaussian_loop arr c a s i e = Some arr'"
      by (subst addGaussian_loop.simps)
        (simp only: True inb if_True if_False Let_def r [unfolded arr1_def x_def])
    have xx: "- 0.5 * x * x = - 0.5 * ((real (nat i) - c) / s)\<^sup>2"
      using inb by (simp add: x_def power2_eq_square)
    have "arr' ! j = (if i \<le> int j \<and> int j \<le> e
                 then arr ! j + a * exp (- 0.5 * ((real j - c) / s)\<^sup>2)
                 else arr ! j)" if "j < length arr" for j
    proof (cases "int j = i")
      case True
      then have "nat i = j" by simp
      then show ?thesis using v [of j] that len1 True \<open>i \<le> e\<close> xx
        by (simp add: arr1_def)
    next
      case False
      then have "nat i \<noteq> j" using inb by auto
      then show ?thesis using v [of j] that len1 False
        by (auto simp add: arr1_def)
    qed
    then show ?thesis using step l len1 by simp
  qed
qed

lemma addGaussian_Some:
  assumes "sigmaSamples \<noteq> 0"
  shows "\<exists>arr'. addGaussian arr c a sigmaSamples = Some arr' \<and> length arr' = length arr"
proof -
  have "\<exists>arr'. addGaussian_loop arr c a sigmaSamples (max 0 \<lfloor>c - 4 * sigmaSamples\<rfloor>)
            (min (int (length arr) - 1) \<lceil>c + 4 * sigmaSamples\<rceil>) = Some arr'
          \<and> length arr' = length arr
          \<and> (\<forall>j < length arr. arr' ! j =
                (if max 0 \<lfloor>c - 4 * sigmaSamples\<rfloor> \<le> int j
                    \<and> int j \<le> min (int (length arr) - 1) \<lceil>c + 4 * sigmaSamples\<rceil>
                 then arr ! j + a * exp (- 0.5 * ((real j - c) / sigmaSamples)\<^sup>2)
                 else arr ! j))"
    by (rule addGaussian_loop_spec) (use assms in auto)
  then show ?thesis
    unfolding addGaussian_def Let_def by blast
qed

text \<open>
  C8, as the code has it. For a non-zero \<open>sigmaSamples\<close>, \<^verbatim>\<open>addGaussian\<close> touches no
  index outside the array and divides by nothing that is zero (it returns \<^term>\<open>Some\<close>), keeps
  the length, and adds exactly \<open>amplitude \<cdot> exp (-0.5 \<cdot> ((i - centerIdx) / sigmaSamples)\<^sup>2)\<close>
  to every sample \<open>i\<close> of the array with
  \<open>\<lfloor>centerIdx - 4 \<cdot> sigmaSamples\<rfloor> \<le> i \<le> \<lceil>centerIdx + 4 \<cdot> sigmaSamples\<rceil>\<close>, leaving every other
  sample unchanged, wherever the centre lies. That window is the 4-sigma window rounded
  outwards to whole indices: it holds every index within 4 sigma of the centre, and an
  index in it is less than one sample further away than 4 sigma.
\<close>

theorem addGaussian_window:
  assumes "sigmaSamples \<noteq> 0"
  shows "\<exists>arr'. addGaussian arr centerIdx amplitude sigmaSamples = Some arr'
           \<and> length arr' = length arr
           \<and> (\<forall>i < length arr. arr' ! i =
                (if \<lfloor>centerIdx - 4 * sigmaSamples\<rfloor> \<le> int i
                    \<and> int i \<le> \<lceil>centerIdx + 4 * sigmaSamples\<rceil>
                 then arr ! i + amplitude * exp (- 0.5 * ((real i - centerIdx) / sigmaSamples)\<^sup>2)
                 else arr ! i))
           \<and> (\<forall>i. \<bar>real i - centerIdx\<bar> \<le> 4 * sigmaSamples \<longrightarrow>
                 \<lfloor>centerIdx - 4 * sigmaSamples\<rfloor> \<le> int i
                  \<and> int i \<le> \<lceil>centerIdx + 4 * sigmaSamples\<rceil>)
           \<and> (\<forall>i. \<lfloor>centerIdx - 4 * sigmaSamples\<rfloor> \<le> int i
                  \<and> int i \<le> \<lceil>centerIdx + 4 * sigmaSamples\<rceil> \<longrightarrow>
                 \<bar>real i - centerIdx\<bar> < 4 * \<bar>sigmaSamples\<bar> + 1)"
proof -
  let ?lo = "\<lfloor>centerIdx - 4 * sigmaSamples\<rfloor>" and ?hi = "\<lceil>centerIdx + 4 * sigmaSamples\<rceil>"
  have "\<exists>arr'. addGaussian_loop arr centerIdx amplitude sigmaSamples (max 0 ?lo)
            (min (int (length arr) - 1) ?hi) = Some arr'
          \<and> length arr' = length arr
          \<and> (\<forall>j < length arr. arr' ! j =
                (if max 0 ?lo \<le> int j \<and> int j \<le> min (int (length arr) - 1) ?hi
                 then arr ! j + amplitude * exp (- 0.5 * ((real j - centerIdx) / sigmaSamples)\<^sup>2)
                 else arr ! j))"
    by (rule addGaussian_loop_spec) (use assms in auto)
  then obtain arr' where r: "addGaussian arr centerIdx amplitude sigmaSamples = Some arr'"
    and l: "length arr' = length arr"
    and v: "\<And>j. j < length arr \<Longrightarrow> arr' ! j =
                (if max 0 ?lo \<le> int j \<and> int j \<le> min (int (length arr) - 1) ?hi
                 then arr ! j + amplitude * exp (- 0.5 * ((real j - centerIdx) / sigmaSamples)\<^sup>2)
                 else arr ! j)"
    unfolding addGaussian_def Let_def by blast
  have w: "(max 0 ?lo \<le> int j \<and> int j \<le> min (int (length arr) - 1) ?hi)
           = (?lo \<le> int j \<and> int j \<le> ?hi)" if "j < length arr" for j
    using that by auto
  have a: "?lo \<le> int i \<and> int i \<le> ?hi" if "\<bar>real i - centerIdx\<bar> \<le> 4 * sigmaSamples" for i
  proof
    have "centerIdx - 4 * sigmaSamples \<le> real i" using that by linarith
    then show "?lo \<le> int i" by (simp add: floor_le_iff)
    have "real i \<le> centerIdx + 4 * sigmaSamples" using that by linarith
    then show "int i \<le> ?hi" by (simp add: le_ceiling_iff)
  qed
  have b: "\<bar>real i - centerIdx\<bar> < 4 * \<bar>sigmaSamples\<bar> + 1" if "?lo \<le> int i \<and> int i \<le> ?hi" for i
  proof -
    have "centerIdx - 4 * sigmaSamples - 1 < real_of_int ?lo" by linarith
    moreover have "real_of_int ?lo \<le> real i" using that by (metis of_int_le_iff of_int_of_nat_eq)
    moreover have "real_of_int ?hi < centerIdx + 4 * sigmaSamples + 1" by linarith
    moreover have "real i \<le> real_of_int ?hi" using that by (metis of_int_le_iff of_int_of_nat_eq)
    ultimately show ?thesis by linarith
  qed
  show ?thesis
    using r l v w a b by (intro exI [of _ arr']) simp
qed

theorem addGaussian_window_witness:
  "(1::real) \<noteq> 0
   \<and> (\<exists>arr'. addGaussian [0, 0, 0] 1 2 1 = Some arr' \<and> length arr' = 3
        \<and> arr' ! 0 = 2 * exp (- (1/2)) \<and> arr' ! 1 = 2 \<and> arr' ! 2 = 2 * exp (- (1/2)))"
proof -
  have h: "(1::real) \<noteq> 0" by simp
  from addGaussian_window [OF h, of "[0, 0, 0]" 1 2]
  obtain arr' where r: "addGaussian [0, 0, 0] 1 2 1 = Some arr'" and l: "length arr' = 3"
    and v: "\<And>i. i < 3 \<Longrightarrow> arr' ! i =
                (if \<lfloor>1 - 4 * (1::real)\<rfloor> \<le> int i \<and> int i \<le> \<lceil>1 + 4 * (1::real)\<rceil>
                 then [0, 0, 0] ! i + 2 * exp (- 0.5 * ((real i - 1) / 1)\<^sup>2)
                 else [0, 0, 0] ! i)"
    by auto
  have "arr' ! 0 = 2 * exp (- (1/2))" using v [of 0] by simp
  moreover have "arr' ! 1 = 2" using v [of 1] by simp
  moreover have "arr' ! 2 = 2 * exp (- (1/2))" using v [of 2] by simp
  ultimately show ?thesis using r l by simp
qed

text \<open>
  C8 as stated fails where \<open>centerIdx \<plusminus> 4 \<cdot> sigmaSamples\<close> is not a whole number: with the
  centre at 4.5 and sigma 1, sample 0 of a one-sample array lies 4.5 samples from the
  centre, outside the 4-sigma window, and is changed all the same.
\<close>

theorem addGaussian_window_counterexample:
  "addGaussian [0] (9/2) 1 1 = Some [exp (- (81/8))]
   \<and> [exp (- (81/8))] ! 0 \<noteq> [0::real] ! 0
   \<and> \<not> \<bar>real 0 - 9/2\<bar> \<le> 4 * (1::real)"
  by (simp add: addGaussian_def addGaussian_loop.simps Let_def power2_eq_square)

subsection \<open>The playback clock\<close>

lemma js_rem_range:
  assumes "0 \<le> x" "0 < y"
  shows "\<exists>r. js_rem x y = Some r \<and> 0 \<le> r \<and> r < y"
proof -
  have q: "0 \<le> x / y" using assms by simp
  have r: "js_rem x y = Some (x - y * of_int \<lfloor>x / y\<rfloor>)"
    using assms q by (simp add: js_rem_def js_trunc_def)
  have e: "x / y * y = x" using assms by simp
  have "real_of_int \<lfloor>x / y\<rfloor> * y \<le> x / y * y"
    using assms by (intro mult_right_mono) auto
  then have "y * of_int \<lfloor>x / y\<rfloor> \<le> x"
    unfolding e by (simp add: mult.commute)
  moreover have "x / y * y < (real_of_int \<lfloor>x / y\<rfloor> + 1) * y"
    using assms by (intro mult_strict_right_mono) linarith+
  then have "x - y * of_int \<lfloor>x / y\<rfloor> < y"
    unfolding e by (simp add: algebra_simps)
  ultimately show ?thesis using r by simp
qed

lemma js_rem_int_range:
  assumes "0 \<le> a" "0 < b"
  shows "\<exists>r. js_rem_int a b = Some r \<and> 0 \<le> r \<and> r < b"
proof -
  have "a smod b = a mod b"
    using assms by (simp add: signed_modulo_int_def sgn_if)
  then show ?thesis using assms by (simp add: js_rem_int_def)
qed

text \<open>
  C9. For every elapsed time \<open>dt \<ge> 0\<close>, however long, and every playback position in
  \<open>[0, buffer.length)\<close>: the advanced position is again in \<open>[0, buffer.length)\<close>, and for
  every sweep speed, canvas width \<open>w\<close> and column \<open>0 \<le> px < w\<close> the index the drawing loop
  computes is an index of the buffer (so the read of the sample succeeds).
\<close>

theorem draw_indices_in_bounds:
  assumes "0 \<le> dt" "0 \<le> scroll" "scroll < real (length buf)" "0 \<le> px" "px < w"
  shows "\<exists>scroll' startIdx idx.
           draw_scroll buf scroll dt = Some scroll'
         \<and> 0 \<le> scroll' \<and> scroll' < real (length buf)
         \<and> draw_startIdx buf scroll' = Some startIdx
         \<and> 0 \<le> startIdx \<and> startIdx < int (length buf)
         \<and> draw_idx buf speed w startIdx px = Some idx
         \<and> 0 \<le> idx \<and> idx < int (length buf)
         \<and> draw_sample buf speed w startIdx px = Some (buf ! nat idx)"
proof -
  have len: "0 < real (length buf)" "0 < int (length buf)"
    using assms by linarith+
  have "0 \<le> scroll + dt * SAMPLE_RATE"
    using assms by (simp add: SAMPLE_RATE_def)
  from js_rem_range [OF this len(1)]
  obtain scroll' where s: "js_rem (scroll + dt * SAMPLE_RATE) (real (length buf)) = Some scroll'"
    and s0: "0 \<le> scroll'" and s1: "scroll' < real (length buf)"
    by blast
  have "0 \<le> \<lfloor>scroll'\<rfloor>" using s0 by simp
  from js_rem_int_range [OF this len(2)]
  obtain startIdx where i: "js_rem_int \<lfloor>scroll'\<rfloor> (int (length buf)) = Some startIdx"
    and i0: "0 \<le> startIdx" and i1: "startIdx < int (length buf)"
    by blast
  define visSamples where "visSamples = \<lfloor>visibleSec speed * SAMPLE_RATE\<rfloor>"
  define sampleOffset where "sampleOffset = \<lfloor>real_of_int px / real_of_int w * of_int visSamples\<rfloor>"
  have "0 \<le> visSamples"
    by (simp add: visSamples_def visibleSec_def SAMPLE_RATE_def)
  then have "0 \<le> real_of_int px / real_of_int w * of_int visSamples"
    using assms by simp
  then have "0 \<le> sampleOffset" by (simp add: sampleOffset_def)
  then have "0 \<le> startIdx + sampleOffset" using i0 by simp
  from js_rem_int_range [OF this len(2)]
  obtain idx where j: "js_rem_int (startIdx + sampleOffset) (int (length buf)) = Some idx"
    and j0: "0 \<le> idx" and j1: "idx < int (length buf)"
    by blast
  have w: "real_of_int w \<noteq> 0" using assms by simp
  have d: "draw_idx buf speed w startIdx px = Some idx"
    using j w by (simp add: draw_idx_def js_div_def Let_def sampleOffset_def visSamples_def)
  have "draw_sample buf speed w startIdx px = Some (buf ! nat idx)"
    using d j0 j1 by (simp add: draw_sample_def)
  then show ?thesis
    using s s0 s1 i i0 i1 d j0 j1 unfolding draw_scroll_def draw_startIdx_def by blast
qed

theorem draw_indices_in_bounds_witness:
  "(0::real) \<le> 1 \<and> (0::real) \<le> 1 \<and> (1::real) < real (length [0, 0, 0, 0::real])
   \<and> (0::int) \<le> 1 \<and> (1::int) < 2
   \<and> (\<exists>scroll' startIdx idx.
           draw_scroll [0, 0, 0, 0] 1 1 = Some scroll'
         \<and> 0 \<le> scroll' \<and> scroll' < real (length [0, 0, 0, 0::real])
         \<and> draw_startIdx [0, 0, 0, 0] scroll' = Some startIdx
         \<and> 0 \<le> startIdx \<and> startIdx < int (length [0, 0, 0, 0::real])
         \<and> draw_idx [0, 0, 0, 0] 25 2 startIdx 1 = Some idx
         \<and> 0 \<le> idx \<and> idx < int (length [0, 0, 0, 0::real])
         \<and> draw_sample [0, 0, 0, 0] 25 2 startIdx 1 = Some ([0, 0, 0, 0] ! nat idx))"
proof -
  have h: "(0::real) \<le> 1" "(1::real) < real (length [0, 0, 0, 0::real])" "(0::int) \<le> 1"
    "(1::int) < 2"
    by simp_all
  show ?thesis
    using h draw_indices_in_bounds [OF h(1) h(1) h(2) h(3) h(4), of 25]
    by blast
qed

subsection \<open>The synthesis loops: one pass of a body\<close>

text \<open>
  With a non-zero sigma \<^verbatim>\<open>addGaussian\<close> always succeeds, so a bind over it can be
  rewritten. Every call in the generators passes a sigma of at least 2, so every pass
  through a loop body completes; the lemmas below say what it leaves behind.
\<close>

lemma addGaussian_bind:
  "sigmaSamples \<noteq> 0 \<Longrightarrow>
   (addGaussian arr c a sigmaSamples \<bind> f) = f (the (addGaussian arr c a sigmaSamples))"
  using addGaussian_Some [of sigmaSamples arr c a] by auto

lemma addGaussian_length:
  "sigmaSamples \<noteq> 0 \<Longrightarrow> length (the (addGaussian arr c a sigmaSamples)) = length arr"
  using addGaussian_Some [of sigmaSamples arr c a] by auto

lemma jitter_eq: "jitter b f g = (b * (1 + (- f + shd g * (f - - f))), stl g)"
  by (simp add: jitter_def randRange_def random_def)

lemma randRange_eq: "randRange a b g = (a + shd g * (b - a), stl g)"
  by (simp add: randRange_def random_def)

lemma regular_beat_exact:
  "\<exists>st'. regular_beat c st = Some st'
     \<and> st_t st' = st_t st + 60 / clamp (fst (jitter (c_baseHr c) 0.03 (st_rng st))) 45 190
     \<and> length (st_arr st') = length (st_arr st)
     \<and> st_rPeaks st' = st_rPeaks st
          @ [\<lfloor>st_t st * SAMPLE_RATE\<rfloor>
             + \<lfloor>clamp (fst (randRange (c_prMin c) (c_prMax c) (stl (st_rng st)))) 80 260 / 1000
                * SAMPLE_RATE\<rfloor>]
     \<and> st_rng st' = stl (stl (stl (stl (st_rng st))))"
proof -
  obtain j where j: "jitter (c_baseHr c) 0.03 (st_rng st) = (j, stl (st_rng st))"
    by (simp add: jitter_eq)
  obtain pr where pr: "randRange (c_prMin c) (c_prMax c) (stl (st_rng st))
      = (pr, stl (stl (st_rng st)))"
    by (simp add: randRange_eq)
  obtain q where q: "jitter (c_qrsWidthMs c) 0.08 (stl (stl (st_rng st)))
      = (q, stl (stl (stl (st_rng st))))"
    by (simp add: jitter_eq)
  obtain amp where amp: "jitter (c_baseAmp c) 0.06 (stl (stl (stl (st_rng st))))
      = (amp, stl (stl (stl (stl (st_rng st)))))"
    by (simp add: jitter_eq)
  define beatHr where "beatHr = clamp j 45 190"
  have hr: "45 \<le> beatHr" "beatHr \<le> 190" by (simp_all add: beatHr_def clamp_def)
  then have d: "js_div 60 beatHr = Some (60 / beatHr)" by (simp add: js_div_def)
  have sq: "js_sqrt (60 / beatHr) = Some (sqrt (60 / beatHr))"
    using hr by (simp add: js_sqrt_def)
  define prS where "prS = \<lfloor>(clamp pr 80 260 / 1000) * SAMPLE_RATE\<rfloor>"
  define qrsS where "qrsS = \<lfloor>(clamp q 50 160 / 1000) * SAMPLE_RATE\<rfloor>"
  define qtS where "qtS = \<lfloor>(clamp (400 * sqrt (60 / beatHr)) 280 460 / 1000) * SAMPLE_RATE\<rfloor>"
  have sig: "real_of_int (max 3 x) \<noteq> 0" "real_of_int (max 2 x) \<noteq> 0" "real_of_int (max 6 x) \<noteq> 0" for x
    by simp_all
  show ?thesis
    unfolding regular_beat_def j pr q amp prod.case fst_conv Let_def beatHr_def [symmetric] d sq
      prS_def [symmetric] qrsS_def [symmetric] qtS_def [symmetric] bind.bind_lunit
    by (cases "c_showP c"; cases "c_showT c")
      (simp_all only: if_True if_False bind.bind_lunit addGaussian_bind addGaussian_length sig
         simp_thms option.inject beat_state.simps ex_simps not_False_eq_True)
qed

lemma regular_beat_Some:
  "\<exists>st'. regular_beat c st = Some st'
     \<and> st_t st + 6/19 \<le> st_t st'
     \<and> length (st_arr st') = length (st_arr st)
     \<and> (\<exists>prS. 40 \<le> prS \<and> prS \<le> 130
            \<and> st_rPeaks st' = st_rPeaks st @ [\<lfloor>st_t st * SAMPLE_RATE\<rfloor> + prS])"
proof -
  define beatHr where "beatHr = clamp (fst (jitter (c_baseHr c) 0.03 (st_rng st))) 45 190"
  define pr where "pr = clamp (fst (randRange (c_prMin c) (c_prMax c) (stl (st_rng st)))) 80 260"
  have hr: "45 \<le> beatHr" "beatHr \<le> 190" by (simp_all add: beatHr_def clamp_def)
  have cyc: "6/19 \<le> 60 / beatHr" using hr by (simp add: field_simps)
  have "80 \<le> pr" "pr \<le> 260" by (simp_all add: pr_def clamp_def)
  then have prS: "40 \<le> \<lfloor>pr / 1000 * SAMPLE_RATE\<rfloor>" "\<lfloor>pr / 1000 * SAMPLE_RATE\<rfloor> \<le> 130"
    unfolding SAMPLE_RATE_def by (simp_all add: le_floor_iff floor_le_iff)
  from regular_beat_exact [of c st]
  obtain st' where "regular_beat c st = Some st'"
    "st_t st' = st_t st + 60 / beatHr"
    "length (st_arr st') = length (st_arr st)"
    "st_rPeaks st' = st_rPeaks st @ [\<lfloor>st_t st * SAMPLE_RATE\<rfloor> + \<lfloor>pr / 1000 * SAMPLE_RATE\<rfloor>]"
    unfolding beatHr_def pr_def by blast
  then show ?thesis
    using cyc prS by (intro exI [of _ st']) simp
qed

lemma afib_beat_Some:
  "\<exists>st'. afib_beat meanRR st = Some st'
     \<and> st_t st + 0.28 \<le> st_t st'
     \<and> length (st_arr st') = length (st_arr st)
     \<and> st_rPeaks st' = st_rPeaks st @ [\<lfloor>st_t st * SAMPLE_RATE\<rfloor>]"
proof -
  have rr: "0.28 \<le> clamp x 0.28 1.1" for x by (simp add: clamp_def)
  show ?thesis
    using rr
    by (simp add: afib_beat_def Let_def split_def addGaussian_bind addGaussian_length)
qed

lemma vt_cycle_Some:
  assumes "captureEvery \<noteq> 0"
  shows "\<exists>st'. vt_cycle cycleSamples captureEvery st = Some st'
     \<and> vt_k st' = vt_k st + 1
     \<and> length (vt_arr st') = length (vt_arr st)
     \<and> vt_rPeaks st' = vt_rPeaks st
          @ [round (of_int (vt_k st * cycleSamples) + 0.32 * real_of_int cycleSamples)]"
proof -
  obtain m where m: "js_rem_int (vt_k st) captureEvery = Some m"
    using assms by (simp add: js_rem_int_def)
  show ?thesis
    by (simp add: vt_cycle_def m Let_def split_def addGaussian_bind addGaussian_length)
qed

subsection \<open>The synthesis loops: total correctness\<close>

text \<open>
  Each loop has a rule in the style of Hoare logic for total correctness: an invariant that
  holds of the first state and is kept by the body holds of the state the loop returns, and
  the loop does return, with its guard false. The variant is the number of samples left
  before the end of the buffer, which a beat reduces by at least 157 (regular rhythm),
  140 (atrial fibrillation) or one cycle (ventricular tachycardia).
\<close>

lemma regular_loop_rule:
  assumes "I st"
    and "\<And>s s'. I s \<Longrightarrow> st_t s * SAMPLE_RATE < of_int (c_samples c)
            \<Longrightarrow> regular_beat c s = Some s' \<Longrightarrow> I s'"
  shows "\<exists>st'. regular_loop c st = Some st' \<and> I st'
           \<and> \<not> st_t st' * SAMPLE_RATE < of_int (c_samples c)"
  using assms(1)
proof (induction "nat \<lceil>of_int (c_samples c) - st_t st * SAMPLE_RATE\<rceil>" arbitrary: st
    rule: less_induct)
  case less
  show ?case
  proof (cases "st_t st * SAMPLE_RATE < of_int (c_samples c)")
    case False
    then show ?thesis
      using less.prems by (subst regular_loop.simps) simp
  next
    case True
    from regular_beat_Some [of c st]
    obtain st1 where b: "regular_beat c st = Some st1" and p: "st_t st + 6/19 \<le> st_t st1"
      by blast
    have i1: "I st1"
      using assms(2) [OF less.prems True b] .
    have "st_t st * SAMPLE_RATE + 157 \<le> st_t st1 * SAMPLE_RATE"
      using p by (simp add: SAMPLE_RATE_def)
    then have "\<lceil>of_int (c_samples c) - st_t st1 * SAMPLE_RATE\<rceil>
        \<le> \<lceil>of_int (c_samples c) - st_t st * SAMPLE_RATE\<rceil> - 157"
      by (simp add: ceiling_le_iff) linarith
    moreover have "0 < \<lceil>of_int (c_samples c) - st_t st * SAMPLE_RATE\<rceil>"
      using True by simp
    ultimately have "nat \<lceil>of_int (c_samples c) - st_t st1 * SAMPLE_RATE\<rceil>
        < nat \<lceil>of_int (c_samples c) - st_t st * SAMPLE_RATE\<rceil>"
      by linarith
    from less.hyps [OF this i1]
    obtain st' where "regular_loop c st1 = Some st'" "I st'"
      "\<not> st_t st' * SAMPLE_RATE < of_int (c_samples c)"
      by blast
    then show ?thesis
      using True b by (subst regular_loop.simps) simp
  qed
qed

lemma afib_loop_rule:
  assumes "I st"
    and "\<And>s s'. I s \<Longrightarrow> st_t s * SAMPLE_RATE < of_int samples
            \<Longrightarrow> afib_beat meanRR s = Some s' \<Longrightarrow> I s'"
  shows "\<exists>st'. afib_loop samples meanRR st = Some st' \<and> I st'
           \<and> \<not> st_t st' * SAMPLE_RATE < of_int samples"
  using assms(1)
proof (induction "nat \<lceil>of_int samples - st_t st * SAMPLE_RATE\<rceil>" arbitrary: st
    rule: less_induct)
  case less
  show ?case
  proof (cases "st_t st * SAMPLE_RATE < of_int samples")
    case False
    then show ?thesis
      using less.prems by (subst afib_loop.simps) simp
  next
    case True
    from afib_beat_Some [of meanRR st]
    obtain st1 where b: "afib_beat meanRR st = Some st1" and p: "st_t st + 0.28 \<le> st_t st1"
      by blast
    have i1: "I st1"
      using assms(2) [OF less.prems True b] .
    have "st_t st * SAMPLE_RATE + 140 \<le> st_t st1 * SAMPLE_RATE"
      using p by (simp add: SAMPLE_RATE_def)
    then have "\<lceil>of_int samples - st_t st1 * SAMPLE_RATE\<rceil>
        \<le> \<lceil>of_int samples - st_t st * SAMPLE_RATE\<rceil> - 140"
      by (simp add: ceiling_le_iff) linarith
    moreover have "0 < \<lceil>of_int samples - st_t st * SAMPLE_RATE\<rceil>"
      using True by simp
    ultimately have "nat \<lceil>of_int samples - st_t st1 * SAMPLE_RATE\<rceil>
        < nat \<lceil>of_int samples - st_t st * SAMPLE_RATE\<rceil>"
      by linarith
    from less.hyps [OF this i1]
    obtain st' where "afib_loop samples meanRR st1 = Some st'" "I st'"
      "\<not> st_t st' * SAMPLE_RATE < of_int samples"
      by blast
    then show ?thesis
      using True b by (subst afib_loop.simps) simp
  qed
qed

lemma vt_loop_rule:
  assumes "I st" "0 < cycleSamples" "captureEvery \<noteq> 0"
    and "\<And>s s'. I s \<Longrightarrow> vt_k s * cycleSamples < samples
            \<Longrightarrow> vt_cycle cycleSamples captureEvery s = Some s' \<Longrightarrow> I s'"
  shows "\<exists>st'. vt_loop samples cycleSamples captureEvery st = Some st' \<and> I st'
           \<and> \<not> vt_k st' * cycleSamples < samples"
  using assms(1)
proof (induction "nat (samples - vt_k st * cycleSamples)" arbitrary: st rule: less_induct)
  case less
  show ?case
  proof (cases "vt_k st * cycleSamples < samples")
    case False
    then show ?thesis
      using less.prems by (subst vt_loop.simps) simp
  next
    case True
    from vt_cycle_Some [OF assms(3), of cycleSamples st]
    obtain st1 where b: "vt_cycle cycleSamples captureEvery st = Some st1"
      and p: "vt_k st1 = vt_k st + 1"
      by blast
    have i1: "I st1"
      using assms(4) [OF less.prems True b] .
    have "vt_k st1 * cycleSamples = vt_k st * cycleSamples + cycleSamples"
      by (simp add: p algebra_simps)
    then have "nat (samples - vt_k st1 * cycleSamples) < nat (samples - vt_k st * cycleSamples)"
      using True assms(2) by linarith
    from less.hyps [OF this i1]
    obtain st' where "vt_loop samples cycleSamples captureEvery st1 = Some st'" "I st'"
      "\<not> vt_k st' * cycleSamples < samples"
      by blast
    then show ?thesis
      using True b by (subst vt_loop.simps) simp
  qed
qed

subsection \<open>The loops over the samples keep the length of the array\<close>

lemma regular_noise_length:
  "length (fst (snd (fold regular_noise_step xs s))) = length (fst (snd s))"
  by (induction xs arbitrary: s) (simp_all add: regular_noise_step_def split_def Let_def)

lemma afib_baseline_length:
  "length (fst (fold (afib_baseline_step fHz) xs s)) = length (fst s)"
  by (induction xs arbitrary: s) (simp_all add: afib_baseline_step_def split_def Let_def)

lemma vf_step_length:
  "length (vf_arr (fold (vf_step phi1 phi2 phi3) xs s)) = length (vf_arr s)"
  by (induction xs arbitrary: s) (simp_all add: vf_step_def vf_wander_def split_def Let_def)

lemma vt_noise_length:
  "length (fst (fold vt_noise_step xs s)) = length (fst s)"
  by (induction xs arbitrary: s) (simp_all add: vt_noise_step_def split_def Let_def)

lemma asystole_length:
  "length (fst (fold asystole_step xs s)) = length (fst s)"
  by (induction xs arbitrary: s) (simp_all add: asystole_step_def split_def Let_def)

lemma svt_retrograde_Some:
  "\<exists>a' g'. svt_retrograde rps a g = Some (a', g') \<and> length a' = length a"
proof (induction rps arbitrary: a g)
  case Nil
  show ?case by simp
next
  case (Cons rp rps)
  show ?case
  proof (cases "shd g < 0.3")
    case True
    define a1 where "a1 = the (addGaussian a (of_int (rp + \<lfloor>0.06 * SAMPLE_RATE\<rfloor>)) (- 0.07) 8)"
    have l: "length a1 = length a" by (simp add: a1_def addGaussian_length)
    from Cons [of a1 "stl g"] l True show ?thesis
      by (simp add: random_def addGaussian_bind a1_def)
  next
    case False
    with Cons [of a "stl g"] show ?thesis
      by (simp add: random_def)
  qed
qed

subsection \<open>What the beat loops record\<close>

text \<open>
  The regular rhythm records each R peak 40 to 130 samples (the PR interval) after the
  start of its beat, and the next beat starts at least 157 samples later; atrial
  fibrillation records the start of the beat itself; ventricular tachycardia records
  \<open>round (k \<cdot> cycleSamples + 0.32 \<cdot> cycleSamples)\<close> for the cycles \<open>k = 0, 1, \<dots>\<close> that start
  inside the buffer.
\<close>

lemma regular_loop_peaks:
  assumes "0 \<le> c_samples c" "length arr0 = n"
  shows "\<exists>st'. regular_loop c \<lparr>st_t = 0, st_arr = arr0, st_rPeaks = [], st_rng = g\<rparr> = Some st'
     \<and> length (st_arr st') = n
     \<and> sorted_wrt (<) (st_rPeaks st')
     \<and> (\<forall>p \<in> set (st_rPeaks st'). 0 \<le> p \<and> p < c_samples c + 130)
     \<and> (\<forall>p \<in> set (butlast (st_rPeaks st')). p < c_samples c)
     \<and> (0 < c_samples c \<longrightarrow> st_rPeaks st' \<noteq> [])"
proof -
  define S where "S = c_samples c"
  define I where "I = (\<lambda>s::beat_state. length (st_arr s) = n \<and> 0 \<le> st_t s
      \<and> sorted_wrt (<) (st_rPeaks s)
      \<and> (\<forall>p \<in> set (st_rPeaks s). 0 \<le> p \<and> p < \<lfloor>st_t s * SAMPLE_RATE\<rfloor> \<and> p < S + 130)
      \<and> (\<forall>p \<in> set (butlast (st_rPeaks s)). p < S)
      \<and> (st_rPeaks s = [] \<longrightarrow> st_t s = 0))"
  have init: "I \<lparr>st_t = 0, st_arr = arr0, st_rPeaks = [], st_rng = g\<rparr>"
    using assms by (simp add: I_def)
  have step: "I s'" if i: "I s" and gd: "st_t s * SAMPLE_RATE < of_int (c_samples c)"
    and b: "regular_beat c s = Some s'" for s s'
  proof -
    from regular_beat_Some [of c s] b
    obtain prS where t: "st_t s + 6/19 \<le> st_t s'"
      and l: "length (st_arr s') = length (st_arr s)"
      and prS: "40 \<le> prS" "prS \<le> 130"
      and pk: "st_rPeaks s' = st_rPeaks s @ [\<lfloor>st_t s * SAMPLE_RATE\<rfloor> + prS]"
      by auto
    let ?base = "\<lfloor>st_t s * SAMPLE_RATE\<rfloor>"
    have t0: "0 \<le> st_t s" using i by (simp add: I_def)
    have base0: "0 \<le> ?base" using t0 by (simp add: SAMPLE_RATE_def)
    have baseS: "?base < S" using gd unfolding S_def by (simp add: floor_less_iff)
    have "st_t s * SAMPLE_RATE + 157 \<le> st_t s' * SAMPLE_RATE"
      using t by (simp add: SAMPLE_RATE_def)
    then have "real_of_int (?base + 157) \<le> st_t s' * SAMPLE_RATE"
      by (simp add: SAMPLE_RATE_def) linarith
    then have base': "?base + 157 \<le> \<lfloor>st_t s' * SAMPLE_RATE\<rfloor>"
      by (simp only: le_floor_iff)
    have old: "\<forall>p \<in> set (st_rPeaks s). 0 \<le> p \<and> p < ?base \<and> p < S + 130"
      using i by (simp add: I_def)
    have srt: "sorted_wrt (<) (st_rPeaks s)"
      using i by (simp add: I_def)
    have "sorted_wrt (<) (st_rPeaks s')"
      unfolding pk sorted_wrt_append using srt old prS by fastforce
    moreover have "\<forall>p \<in> set (st_rPeaks s'). 0 \<le> p \<and> p < \<lfloor>st_t s' * SAMPLE_RATE\<rfloor> \<and> p < S + 130"
      unfolding pk using old prS base0 base' baseS by fastforce
    moreover have "\<forall>p \<in> set (butlast (st_rPeaks s')). p < S"
      unfolding pk using old baseS by fastforce
    moreover have "st_rPeaks s' \<noteq> []" unfolding pk by simp
    moreover have "0 \<le> st_t s'" using t t0 by linarith
    moreover have "length (st_arr s') = n" using l i by (simp add: I_def)
    ultimately show ?thesis by (simp add: I_def)
  qed
  have "\<exists>st'. regular_loop c \<lparr>st_t = 0, st_arr = arr0, st_rPeaks = [], st_rng = g\<rparr> = Some st'
      \<and> I st' \<and> \<not> st_t st' * SAMPLE_RATE < of_int (c_samples c)"
    by (rule regular_loop_rule [where I = I, OF init]) (rule step)
  then obtain st' where r: "regular_loop c \<lparr>st_t = 0, st_arr = arr0, st_rPeaks = [], st_rng = g\<rparr> = Some st'"
    and i: "I st'" and e: "\<not> st_t st' * SAMPLE_RATE < of_int (c_samples c)"
    by blast
  have "st_rPeaks st' \<noteq> []" if "0 < c_samples c"
  proof
    assume "st_rPeaks st' = []"
    then have "st_t st' = 0" using i by (simp add: I_def)
    then show False using e that by simp
  qed
  then show ?thesis
    using r i unfolding I_def S_def by auto
qed

lemma afib_loop_peaks:
  assumes "0 \<le> samples" "length arr0 = n"
  shows "\<exists>st'. afib_loop samples meanRR \<lparr>st_t = 0, st_arr = arr0, st_rPeaks = [], st_rng = g\<rparr>
         = Some st'
     \<and> length (st_arr st') = n
     \<and> sorted_wrt (<) (st_rPeaks st')
     \<and> (\<forall>p \<in> set (st_rPeaks st'). 0 \<le> p \<and> p < samples)
     \<and> (0 < samples \<longrightarrow> st_rPeaks st' \<noteq> [])"
proof -
  define I where "I = (\<lambda>s::beat_state. length (st_arr s) = n \<and> 0 \<le> st_t s
      \<and> sorted_wrt (<) (st_rPeaks s)
      \<and> (\<forall>p \<in> set (st_rPeaks s). 0 \<le> p \<and> p < \<lfloor>st_t s * SAMPLE_RATE\<rfloor> \<and> p < samples)
      \<and> (st_rPeaks s = [] \<longrightarrow> st_t s = 0))"
  have init: "I \<lparr>st_t = 0, st_arr = arr0, st_rPeaks = [], st_rng = g\<rparr>"
    using assms by (simp add: I_def)
  have step: "I s'" if i: "I s" and gd: "st_t s * SAMPLE_RATE < of_int samples"
    and b: "afib_beat meanRR s = Some s'" for s s'
  proof -
    from afib_beat_Some [of meanRR s] b
    have t: "st_t s + 0.28 \<le> st_t s'"
      and l: "length (st_arr s') = length (st_arr s)"
      and pk: "st_rPeaks s' = st_rPeaks s @ [\<lfloor>st_t s * SAMPLE_RATE\<rfloor>]"
      by auto
    let ?base = "\<lfloor>st_t s * SAMPLE_RATE\<rfloor>"
    have t0: "0 \<le> st_t s" using i by (simp add: I_def)
    have base0: "0 \<le> ?base" using t0 by (simp add: SAMPLE_RATE_def)
    have baseS: "?base < samples" using gd by (simp add: floor_less_iff)
    have "st_t s * SAMPLE_RATE + 140 \<le> st_t s' * SAMPLE_RATE"
      using t by (simp add: SAMPLE_RATE_def)
    then have "real_of_int (?base + 140) \<le> st_t s' * SAMPLE_RATE"
      by (simp add: SAMPLE_RATE_def) linarith
    then have base': "?base + 140 \<le> \<lfloor>st_t s' * SAMPLE_RATE\<rfloor>"
      by (simp only: le_floor_iff)
    have old: "\<forall>p \<in> set (st_rPeaks s). 0 \<le> p \<and> p < ?base \<and> p < samples"
      using i by (simp add: I_def)
    have srt: "sorted_wrt (<) (st_rPeaks s)"
      using i by (simp add: I_def)
    have "sorted_wrt (<) (st_rPeaks s')"
      unfolding pk sorted_wrt_append using srt old by fastforce
    moreover have "\<forall>p \<in> set (st_rPeaks s'). 0 \<le> p \<and> p < \<lfloor>st_t s' * SAMPLE_RATE\<rfloor> \<and> p < samples"
      unfolding pk using old base0 base' baseS by fastforce
    moreover have "st_rPeaks s' \<noteq> []" unfolding pk by simp
    moreover have "0 \<le> st_t s'" using t t0 by simp
    moreover have "length (st_arr s') = n" using l i by (simp add: I_def)
    ultimately show ?thesis by (simp add: I_def)
  qed
  have "\<exists>st'. afib_loop samples meanRR \<lparr>st_t = 0, st_arr = arr0, st_rPeaks = [], st_rng = g\<rparr>
         = Some st'
      \<and> I st' \<and> \<not> st_t st' * SAMPLE_RATE < of_int samples"
    by (rule afib_loop_rule [where I = I, OF init]) (rule step)
  then obtain st' where
    r: "afib_loop samples meanRR \<lparr>st_t = 0, st_arr = arr0, st_rPeaks = [], st_rng = g\<rparr> = Some st'"
    and i: "I st'" and e: "\<not> st_t st' * SAMPLE_RATE < of_int samples"
    by blast
  have "st_rPeaks st' \<noteq> []" if "0 < samples"
  proof
    assume "st_rPeaks st' = []"
    then have "st_t st' = 0" using i by (simp add: I_def)
    then show False using e that by simp
  qed
  then show ?thesis
    using r i unfolding I_def by auto
qed

lemma vt_loop_peaks:
  assumes "0 < cycleSamples" "captureEvery \<noteq> 0" "length arr0 = n"
  shows "\<exists>st'. vt_loop samples cycleSamples captureEvery
           \<lparr>vt_k = 0, vt_arr = arr0, vt_rPeaks = [], vt_rng = g\<rparr> = Some st'
     \<and> length (vt_arr st') = n
     \<and> 0 \<le> vt_k st'
     \<and> samples \<le> vt_k st' * cycleSamples
     \<and> (0 < vt_k st' \<longrightarrow> (vt_k st' - 1) * cycleSamples < samples)
     \<and> vt_rPeaks st' =
          map (\<lambda>k. round (of_int (k * cycleSamples) + 0.32 * real_of_int cycleSamples))
            [0 ..< nat (vt_k st')]"
proof -
  define I where "I = (\<lambda>s::vt_state. length (vt_arr s) = n \<and> 0 \<le> vt_k s
      \<and> (0 < vt_k s \<longrightarrow> (vt_k s - 1) * cycleSamples < samples)
      \<and> vt_rPeaks s =
          map (\<lambda>k. round (of_int (int k * cycleSamples) + 0.32 * real_of_int cycleSamples))
            [0 ..< nat (vt_k s)])"
  have init: "I \<lparr>vt_k = 0, vt_arr = arr0, vt_rPeaks = [], vt_rng = g\<rparr>"
    using assms by (simp add: I_def)
  have step: "I s'" if i: "I s" and gd: "vt_k s * cycleSamples < samples"
    and b: "vt_cycle cycleSamples captureEvery s = Some s'" for s s'
  proof -
    from vt_cycle_Some [OF assms(2), of cycleSamples s] b
    have k: "vt_k s' = vt_k s + 1"
      and l: "length (vt_arr s') = length (vt_arr s)"
      and pk: "vt_rPeaks s' = vt_rPeaks s
          @ [round (of_int (vt_k s * cycleSamples) + 0.32 * real_of_int cycleSamples)]"
      by auto
    have k0: "0 \<le> vt_k s" using i by (simp add: I_def)
    then have n: "nat (vt_k s + 1) = Suc (nat (vt_k s))" by simp
    show ?thesis
      using i gd k0 l unfolding I_def k pk n by simp
  qed
  have "\<exists>st'. vt_loop samples cycleSamples captureEvery
           \<lparr>vt_k = 0, vt_arr = arr0, vt_rPeaks = [], vt_rng = g\<rparr> = Some st'
      \<and> I st' \<and> \<not> vt_k st' * cycleSamples < samples"
    by (rule vt_loop_rule [where I = I, OF init assms(1,2)]) (rule step)
  then show ?thesis
    unfolding I_def by auto
qed

subsection \<open>The generators\<close>

lemma generateRegularECG_spec:
  assumes "0 \<le> seconds"
  shows "\<exists>gb g'. generateRegularECG seconds hr qrsWidthMs opts g = Some (gb, g')
     \<and> length (buffer gb) = nat \<lfloor>seconds * SAMPLE_RATE\<rfloor>
     \<and> sorted_wrt (<) (rPeaks gb)
     \<and> (\<forall>p \<in> set (rPeaks gb). 0 \<le> p \<and> p < \<lfloor>seconds * SAMPLE_RATE\<rfloor> + 130)
     \<and> (\<forall>p \<in> set (butlast (rPeaks gb)). p < \<lfloor>seconds * SAMPLE_RATE\<rfloor>)
     \<and> (0 < \<lfloor>seconds * SAMPLE_RATE\<rfloor> \<longrightarrow> rPeaks gb \<noteq> [])"
proof -
  define samples where "samples = \<lfloor>seconds * SAMPLE_RATE\<rfloor>"
  define c where "c = \<lparr>c_samples = samples, c_baseHr = hr, c_qrsWidthMs = qrsWidthMs,
              c_showP = (opt_pWave opts \<noteq> Some False),
              c_showT = (opt_tWave opts \<noteq> Some False),
              c_baseAmp = (case opt_amp opts of Some a \<Rightarrow> a | None \<Rightarrow> 1.0),
              c_prMin = (case opt_prMsMin opts of Some a \<Rightarrow> a | None \<Rightarrow> 120),
              c_prMax = (case opt_prMsMax opts of Some a \<Rightarrow> a | None \<Rightarrow> 200)\<rparr>"
  have s0: "0 \<le> samples"
    using assms by (simp add: samples_def SAMPLE_RATE_def)
  have cs: "c_samples c = samples" by (simp add: c_def)
  have new: "new_Float32Array samples = Some (replicate (nat samples) 0)"
    using s0 by (simp add: new_Float32Array_def)
  from regular_loop_peaks [of c "replicate (nat samples) 0" "nat samples" g] s0
  obtain st' where
    r: "regular_loop c \<lparr>st_t = 0, st_arr = replicate (nat samples) 0, st_rPeaks = [], st_rng = g\<rparr>
         = Some st'"
    and l: "length (st_arr st') = nat samples"
    and p: "sorted_wrt (<) (st_rPeaks st')"
      "\<forall>p \<in> set (st_rPeaks st'). 0 \<le> p \<and> p < samples + 130"
      "\<forall>p \<in> set (butlast (st_rPeaks st')). p < samples"
      "0 < samples \<longrightarrow> st_rPeaks st' \<noteq> []"
    unfolding cs by auto
  let ?f = "fold regular_noise_step [0..<nat samples] (0, st_arr st', st_rng st')"
  have "generateRegularECG seconds hr qrsWidthMs opts g
      = Some (\<lparr>buffer = fst (snd ?f), rPeaks = st_rPeaks st'\<rparr>, snd (snd ?f))"
    unfolding generateRegularECG_def Let_def samples_def [symmetric] new bind.bind_lunit
      c_def [symmetric] r
    by (simp add: split_def)
  moreover have "length (fst (snd ?f)) = nat samples"
    using l by (simp add: regular_noise_length)
  ultimately show ?thesis
    using p unfolding samples_def [symmetric] by simp
qed

lemma generateAfibRvr_spec:
  assumes "0 \<le> seconds" "meanHr \<noteq> 0"
  shows "\<exists>gb g'. generateAfibRvr seconds meanHr g = Some (gb, g')
     \<and> length (buffer gb) = nat \<lfloor>seconds * SAMPLE_RATE\<rfloor>
     \<and> sorted_wrt (<) (rPeaks gb)
     \<and> (\<forall>p \<in> set (rPeaks gb). 0 \<le> p \<and> p < \<lfloor>seconds * SAMPLE_RATE\<rfloor>)
     \<and> (0 < \<lfloor>seconds * SAMPLE_RATE\<rfloor> \<longrightarrow> rPeaks gb \<noteq> [])"
proof -
  define samples where "samples = \<lfloor>seconds * SAMPLE_RATE\<rfloor>"
  have s0: "0 \<le> samples"
    using assms by (simp add: samples_def SAMPLE_RATE_def)
  have new: "new_Float32Array samples = Some (replicate (nat samples) 0)"
    using s0 by (simp add: new_Float32Array_def)
  have d: "js_div 60 meanHr = Some (60 / meanHr)"
    using assms by (simp add: js_div_def)
  obtain fHz g1 where f: "randRange 5 8 g = (fHz, g1)" by force
  let ?b = "fold (afib_baseline_step fHz) [0..<nat samples] (replicate (nat samples) 0, g1)"
  have lb: "length (fst ?b) = nat samples"
    by (simp add: afib_baseline_length)
  from afib_loop_peaks [OF s0 lb, of "60 / meanHr" "snd ?b"]
  obtain st' where
    r: "afib_loop samples (60 / meanHr)
         \<lparr>st_t = 0, st_arr = fst ?b, st_rPeaks = [], st_rng = snd ?b\<rparr> = Some st'"
    and l: "length (st_arr st') = nat samples"
    and p: "sorted_wrt (<) (st_rPeaks st')"
      "\<forall>p \<in> set (st_rPeaks st'). 0 \<le> p \<and> p < samples"
      "0 < samples \<longrightarrow> st_rPeaks st' \<noteq> []"
    by auto
  have "generateAfibRvr seconds meanHr g
      = Some (\<lparr>buffer = st_arr st', rPeaks = st_rPeaks st'\<rparr>, st_rng st')"
    unfolding generateAfibRvr_def Let_def samples_def [symmetric] new bind.bind_lunit f prod.case
      d
    by (simp add: split_def r)
  then show ?thesis
    using p l unfolding samples_def [symmetric] by simp
qed

lemma generateVT_spec:
  assumes "0 \<le> seconds" "hr \<noteq> 0"
  shows "\<exists>gb g' K. generateVT seconds hr g = Some (gb, g')
     \<and> length (buffer gb) = nat \<lfloor>seconds * SAMPLE_RATE\<rfloor>
     \<and> 0 \<le> K
     \<and> \<lfloor>seconds * SAMPLE_RATE\<rfloor> \<le> K * vt_cycleSamples (60 / hr)
     \<and> (0 < K \<longrightarrow> (K - 1) * vt_cycleSamples (60 / hr) < \<lfloor>seconds * SAMPLE_RATE\<rfloor>)
     \<and> rPeaks gb =
          map (\<lambda>k. round (of_int (int k * vt_cycleSamples (60 / hr))
                           + 0.32 * real_of_int (vt_cycleSamples (60 / hr))))
            [0 ..< nat K]"
proof -
  define samples where "samples = \<lfloor>seconds * SAMPLE_RATE\<rfloor>"
  define cs where "cs = vt_cycleSamples (60 / hr)"
  have s0: "0 \<le> samples"
    using assms by (simp add: samples_def SAMPLE_RATE_def)
  have new: "new_Float32Array samples = Some (replicate (nat samples) 0)"
    using s0 by (simp add: new_Float32Array_def)
  have d: "js_div 60 hr = Some (60 / hr)"
    using assms by (simp add: js_div_def)
  have cs0: "0 < cs" by (simp add: cs_def vt_cycleSamples_def)
  obtain x g1 where x: "randRange 8 16 g = (x, g1)" by force
  define ce where "ce = max 6 \<lfloor>x\<rfloor>"
  have ce0: "ce \<noteq> 0" by (simp add: ce_def)
  from vt_loop_peaks [OF cs0 ce0, of "replicate (nat samples) 0" "nat samples" samples g1]
  obtain st' where
    r: "vt_loop samples cs ce \<lparr>vt_k = 0, vt_arr = replicate (nat samples) 0, vt_rPeaks = [],
          vt_rng = g1\<rparr> = Some st'"
    and l: "length (vt_arr st') = nat samples"
    and k: "0 \<le> vt_k st'" "samples \<le> vt_k st' * cs"
      "0 < vt_k st' \<longrightarrow> (vt_k st' - 1) * cs < samples"
    and p: "vt_rPeaks st' =
          map (\<lambda>k. round (of_int (int k * cs) + 0.32 * real_of_int cs)) [0 ..< nat (vt_k st')]"
    by auto
  let ?f = "fold vt_noise_step [0..<nat samples] (vt_arr st', vt_rng st')"
  have "generateVT seconds hr g = Some (\<lparr>buffer = fst ?f, rPeaks = vt_rPeaks st'\<rparr>, snd ?f)"
    unfolding generateVT_def Let_def samples_def [symmetric] new bind.bind_lunit x prod.case
      d cs_def [symmetric] ce_def [symmetric] r
    by (simp add: split_def)
  moreover have "length (fst ?f) = nat samples"
    using l by (simp add: vt_noise_length)
  ultimately show ?thesis
    using k p unfolding samples_def [symmetric] cs_def [symmetric] by auto
qed

lemma generateVF_spec:
  assumes "0 \<le> seconds"
  shows "\<exists>gb g'. generateVF seconds g = Some (gb, g')
     \<and> length (buffer gb) = nat \<lfloor>seconds * SAMPLE_RATE\<rfloor> \<and> rPeaks gb = []"
proof -
  have "new_Float32Array \<lfloor>seconds * SAMPLE_RATE\<rfloor>
      = Some (replicate (nat \<lfloor>seconds * SAMPLE_RATE\<rfloor>) 0)"
    using assms by (simp add: new_Float32Array_def SAMPLE_RATE_def)
  then show ?thesis
    by (simp add: generateVF_def Let_def split_def vf_step_length)
qed

lemma generateAsystole_spec:
  assumes "0 \<le> seconds"
  shows "\<exists>gb g'. generateAsystole seconds g = Some (gb, g')
     \<and> length (buffer gb) = nat \<lfloor>seconds * SAMPLE_RATE\<rfloor> \<and> rPeaks gb = []"
proof -
  have "new_Float32Array \<lfloor>seconds * SAMPLE_RATE\<rfloor>
      = Some (replicate (nat \<lfloor>seconds * SAMPLE_RATE\<rfloor>) 0)"
    using assms by (simp add: new_Float32Array_def SAMPLE_RATE_def)
  then show ?thesis
    by (simp add: generateAsystole_def Let_def split_def asystole_length)
qed

lemma generateSVT_spec:
  assumes "0 \<le> seconds"
  shows "\<exists>gb g'. generateSVT seconds hr g = Some (gb, g')
     \<and> length (buffer gb) = nat \<lfloor>seconds * SAMPLE_RATE\<rfloor>
     \<and> sorted_wrt (<) (rPeaks gb)
     \<and> (\<forall>p \<in> set (rPeaks gb). 0 \<le> p \<and> p < \<lfloor>seconds * SAMPLE_RATE\<rfloor> + 130)
     \<and> (\<forall>p \<in> set (butlast (rPeaks gb)). p < \<lfloor>seconds * SAMPLE_RATE\<rfloor>)
     \<and> (0 < \<lfloor>seconds * SAMPLE_RATE\<rfloor> \<longrightarrow> rPeaks gb \<noteq> [])"
proof -
  let ?opts = "\<lparr>opt_pWave = Some False, opt_tWave = None, opt_amp = Some 0.95,
         opt_prMsMin = Some 60, opt_prMsMax = Some 120\<rparr>"
  from generateRegularECG_spec [OF assms, of hr 80 ?opts g]
  obtain base g1 where b: "generateRegularECG seconds hr 80 ?opts g = Some (base, g1)"
    and l: "length (buffer base) = nat \<lfloor>seconds * SAMPLE_RATE\<rfloor>"
    and p: "sorted_wrt (<) (rPeaks base)"
      "\<forall>p \<in> set (rPeaks base). 0 \<le> p \<and> p < \<lfloor>seconds * SAMPLE_RATE\<rfloor> + 130"
      "\<forall>p \<in> set (butlast (rPeaks base)). p < \<lfloor>seconds * SAMPLE_RATE\<rfloor>"
      "0 < \<lfloor>seconds * SAMPLE_RATE\<rfloor> \<longrightarrow> rPeaks base \<noteq> []"
    by blast
  from svt_retrograde_Some [of "rPeaks base" "buffer base" g1]
  obtain a g2 where s: "svt_retrograde (rPeaks base) (buffer base) g1 = Some (a, g2)"
    and la: "length a = length (buffer base)"
    by blast
  have "generateSVT seconds hr g = Some (base\<lparr>buffer := a\<rparr>, g2)"
    unfolding generateSVT_def b bind.bind_lunit prod.case s by simp
  then show ?thesis
    using l la p by simp
qed

subsection \<open>The scenario table\<close>

lemma rng_ok_shd: "rng_ok g \<Longrightarrow> 0 \<le> shd g \<and> shd g < 1"
  by (simp add: rng_ok_def shd_sset)

lemma randRange_bounds:
  assumes "rng_ok g" "a \<le> b"
  shows "a \<le> fst (randRange a b g) \<and> fst (randRange a b g) \<le> b"
proof -
  have u: "0 \<le> shd g" "shd g < 1" using rng_ok_shd [OF assms(1)] by simp_all
  have "0 \<le> shd g * (b - a)" using u assms(2) by simp
  moreover have "shd g * (b - a) \<le> 1 * (b - a)"
    using u assms(2) by (intro mult_right_mono) simp_all
  ultimately show ?thesis
    by (simp add: randRange_def random_def)
qed

lemma round_int_add: "round (of_int a + x) = a + round (x::real)"
proof -
  have "\<lfloor>of_int a + (x + 1/2)\<rfloor> = a + \<lfloor>x + 1/2\<rfloor>" by linarith
  then show ?thesis by (simp add: round_def add.assoc)
qed

lemma vt_peaks_props:
  fixes cs K S :: int
  assumes "20 \<le> cs" "0 \<le> K" "S \<le> K * cs" "0 < K \<longrightarrow> (K - 1) * cs < S" "0 < S"
    and ps: "ps = map (\<lambda>k. round (of_int (int k * cs) + 0.32 * real_of_int cs)) [0 ..< nat K]"
  shows "ps \<noteq> [] \<and> sorted_wrt (<) ps
     \<and> (\<forall>p \<in> set ps. 0 \<le> p \<and> p < S + round (0.32 * real_of_int cs))
     \<and> (\<forall>p \<in> set (butlast ps). p < S)"
proof -
  define r where "r = round (0.32 * real_of_int cs)"
  have f: "round (of_int (int k * cs) + 0.32 * real_of_int cs) = int k * cs + r" for k
    unfolding r_def by (rule round_int_add)
  have ps': "ps = map (\<lambda>k. int k * cs + r) [0 ..< nat K]"
    unfolding ps f ..
  have r0: "0 \<le> r"
    using assms(1) by (simp add: r_def round_def)
  have "0.32 * real_of_int cs + 1/2 < real_of_int cs"
    using assms(1) by simp
  then have r1: "r < cs"
    by (simp add: r_def round_def floor_less_iff)
  have K0: "0 < K"
  proof (rule ccontr)
    assume "\<not> 0 < K"
    then have "K = 0" using assms(2) by simp
    then show False using assms(3,5) by simp
  qed
  have ne: "ps \<noteq> []" using K0 by (simp add: ps')
  have mono: "int i * cs + r < int j * cs + r" if "i < j" for i j
  proof -
    have "int i * cs < int j * cs" using that assms(1) by simp
    then show ?thesis by simp
  qed
  have cs0: "0 < cs" using assms(1) by simp
  have srt: "sorted_wrt (<) ps"
    unfolding ps' sorted_wrt_map
    by (rule sorted_wrt_mono_rel [of _ "(<)"]) (use cs0 in simp_all)
  have last: "(K - 1) * cs < S" using K0 assms(4) by simp
  have all: "0 \<le> p \<and> p < S + r" if "p \<in> set ps" for p
  proof -
    from that obtain k where k: "k < nat K" and p: "p = int k * cs + r"
      by (auto simp: ps')
    have "int k \<le> K - 1" using k by linarith
    then have "int k * cs \<le> (K - 1) * cs" using assms(1) by (intro mult_right_mono) simp_all
    moreover have "0 \<le> int k * cs" using assms(1) by simp
    ultimately show ?thesis using last r0 p by linarith
  qed
  have bl: "butlast ps = map (\<lambda>k. int k * cs + r) [0 ..< nat K - 1]"
    by (simp add: ps' butlast_conv_take take_map)
  have inner: "p < S" if "p \<in> set (butlast ps)" for p
  proof -
    from that obtain k where k: "k < nat K - 1" and p: "p = int k * cs + r"
      by (auto simp: bl)
    have "int k + 1 \<le> K - 1" using k by linarith
    then have "(int k + 1) * cs \<le> (K - 1) * cs"
      using assms(1) by (intro mult_right_mono) simp_all
    then have "int k * cs + cs \<le> (K - 1) * cs" by (simp add: algebra_simps)
    then show ?thesis using last r1 p by linarith
  qed
  show ?thesis
    using ne srt all inner unfolding r_def by blast
qed

lemma generateVT_peaks:
  assumes "150 \<le> hr" "hr \<le> 185" "0 \<le> seconds" "0 < \<lfloor>seconds * SAMPLE_RATE\<rfloor>"
  shows "\<exists>gb g'. generateVT seconds hr g = Some (gb, g')
     \<and> length (buffer gb) = nat \<lfloor>seconds * SAMPLE_RATE\<rfloor>
     \<and> rPeaks gb \<noteq> []
     \<and> sorted_wrt (<) (rPeaks gb)
     \<and> (\<forall>p \<in> set (rPeaks gb). 0 \<le> p \<and> p < \<lfloor>seconds * SAMPLE_RATE\<rfloor> + 130)
     \<and> (\<forall>p \<in> set (butlast (rPeaks gb)). p < \<lfloor>seconds * SAMPLE_RATE\<rfloor>)"
proof -
  define cs where "cs = vt_cycleSamples (60 / hr)"
  have hr0: "hr \<noteq> 0" using assms(1) by simp
  have "60 / hr * 500 \<le> 200" using assms(1) by (simp add: field_simps)
  then have "\<lfloor>60 / hr * 500\<rfloor> \<le> 200" by (simp add: floor_le_iff)
  then have cs: "20 \<le> cs" "cs \<le> 200"
    by (simp_all add: cs_def vt_cycleSamples_def SAMPLE_RATE_def)
  have "0.32 * real_of_int cs + 1/2 < 130" using cs by simp
  then have r: "round (0.32 * real_of_int cs) < 130"
    by (simp add: round_def floor_less_iff)
  from generateVT_spec [OF assms(3) hr0, of g]
  obtain gb g' K where g: "generateVT seconds hr g = Some (gb, g')"
    and l: "length (buffer gb) = nat \<lfloor>seconds * SAMPLE_RATE\<rfloor>"
    and k: "0 \<le> K" "\<lfloor>seconds * SAMPLE_RATE\<rfloor> \<le> K * cs"
      "0 < K \<longrightarrow> (K - 1) * cs < \<lfloor>seconds * SAMPLE_RATE\<rfloor>"
    and p: "rPeaks gb = map (\<lambda>k. round (of_int (int k * cs) + 0.32 * real_of_int cs)) [0 ..< nat K]"
    unfolding cs_def by blast
  from vt_peaks_props [OF cs(1) k assms(4) p] r
  have "rPeaks gb \<noteq> [] \<and> sorted_wrt (<) (rPeaks gb)
     \<and> (\<forall>p \<in> set (rPeaks gb). 0 \<le> p \<and> p < \<lfloor>seconds * SAMPLE_RATE\<rfloor> + 130)
     \<and> (\<forall>p \<in> set (butlast (rPeaks gb)). p < \<lfloor>seconds * SAMPLE_RATE\<rfloor>)"
    by fastforce
  then show ?thesis using g l by blast
qed

lemma buffer_samples: "\<lfloor>BUFFER_SECONDS * SAMPLE_RATE\<rfloor> = 90000" "0 \<le> BUFFER_SECONDS"
  by (simp_all add: BUFFER_SECONDS_def SAMPLE_RATE_def)

lemma peaks_spec_regular:
  assumes "\<exists>gb g'. G = Some (gb, g')
     \<and> length (buffer gb) = nat \<lfloor>BUFFER_SECONDS * SAMPLE_RATE\<rfloor>
     \<and> sorted_wrt (<) (rPeaks gb)
     \<and> (\<forall>p \<in> set (rPeaks gb). 0 \<le> p \<and> p < \<lfloor>BUFFER_SECONDS * SAMPLE_RATE\<rfloor> + 130)
     \<and> (\<forall>p \<in> set (butlast (rPeaks gb)). p < \<lfloor>BUFFER_SECONDS * SAMPLE_RATE\<rfloor>)
     \<and> (0 < \<lfloor>BUFFER_SECONDS * SAMPLE_RATE\<rfloor> \<longrightarrow> rPeaks gb \<noteq> [])"
    and "rhythm \<noteq> VF" "rhythm \<noteq> ASYSTOLE"
  shows "\<exists>gb g'. G = Some (gb, g')
     \<and> length (buffer gb) = 90000
     \<and> (rPeaks gb = [] \<longleftrightarrow> rhythm = VF \<or> rhythm = ASYSTOLE)
     \<and> sorted_wrt (<) (rPeaks gb)
     \<and> (\<forall>p \<in> set (rPeaks gb). 0 \<le> p \<and> p < 90000 + 130)
     \<and> (\<forall>p \<in> set (butlast (rPeaks gb)). p < 90000)"
proof -
  from assms(1) obtain gb g' where 1: "G = Some (gb, g')"
    and 2: "length (buffer gb) = nat \<lfloor>BUFFER_SECONDS * SAMPLE_RATE\<rfloor>"
    and 3: "sorted_wrt (<) (rPeaks gb)"
    and 4: "\<forall>p \<in> set (rPeaks gb). 0 \<le> p \<and> p < \<lfloor>BUFFER_SECONDS * SAMPLE_RATE\<rfloor> + 130"
    and 5: "\<forall>p \<in> set (butlast (rPeaks gb)). p < \<lfloor>BUFFER_SECONDS * SAMPLE_RATE\<rfloor>"
    and 6: "0 < \<lfloor>BUFFER_SECONDS * SAMPLE_RATE\<rfloor> \<longrightarrow> rPeaks gb \<noteq> []"
    by blast
  have "length (buffer gb) = 90000" using 2 by (simp add: buffer_samples)
  moreover have "rPeaks gb = [] \<longleftrightarrow> rhythm = VF \<or> rhythm = ASYSTOLE"
    using 6 assms(2,3) by (simp add: buffer_samples)
  moreover have "\<forall>p \<in> set (rPeaks gb). 0 \<le> p \<and> p < 90000 + 130"
    using 4 by (simp add: buffer_samples)
  moreover have "\<forall>p \<in> set (butlast (rPeaks gb)). p < 90000"
    using 5 by (simp add: buffer_samples)
  ultimately show ?thesis using 1 3 by blast
qed

lemma peaks_spec_empty:
  assumes "\<exists>gb g'. G = Some (gb, g')
     \<and> length (buffer gb) = nat \<lfloor>BUFFER_SECONDS * SAMPLE_RATE\<rfloor> \<and> rPeaks gb = []"
    and "rhythm = VF \<or> rhythm = ASYSTOLE"
  shows "\<exists>gb g'. G = Some (gb, g')
     \<and> length (buffer gb) = 90000
     \<and> (rPeaks gb = [] \<longleftrightarrow> rhythm = VF \<or> rhythm = ASYSTOLE)
     \<and> sorted_wrt (<) (rPeaks gb)
     \<and> (\<forall>p \<in> set (rPeaks gb). 0 \<le> p \<and> p < 90000 + 130)
     \<and> (\<forall>p \<in> set (butlast (rPeaks gb)). p < 90000)"
proof -
  from assms(1) obtain gb g' where 1: "G = Some (gb, g')"
    and 2: "length (buffer gb) = nat \<lfloor>BUFFER_SECONDS * SAMPLE_RATE\<rfloor>"
    and 3: "rPeaks gb = []"
    by blast
  have "length (buffer gb) = 90000" using 2 by (simp add: buffer_samples)
  then show ?thesis using 1 3 assms(2) by (intro exI [of _ gb] exI [of _ g']) simp
qed

lemma SCENARIOS_generator_spec:
  assumes "rng_ok g"
  shows "\<exists>gb g'. SCENARIOS_generator rhythm g = Some (gb, g')
     \<and> length (buffer gb) = 90000
     \<and> (rPeaks gb = [] \<longleftrightarrow> rhythm = VF \<or> rhythm = ASYSTOLE)
     \<and> sorted_wrt (<) (rPeaks gb)
     \<and> (\<forall>p \<in> set (rPeaks gb). 0 \<le> p \<and> p < 90000 + 130)
     \<and> (\<forall>p \<in> set (butlast (rPeaks gb)). p < 90000)"
proof (cases rhythm)
  case SINUS
  obtain x g1 where x: "randRange (- 8) 8 g = (x, g1)" by force
  have e: "SCENARIOS_generator rhythm g = generateRegularECG BUFFER_SECONDS (70 + of_int \<lfloor>x\<rfloor>) 85
        \<lparr>opt_pWave = None, opt_tWave = None, opt_amp = Some 1.0,
          opt_prMsMin = Some 120, opt_prMsMax = Some 200\<rparr> g1"
    unfolding SINUS SCENARIOS_generator_def x by simp
  show ?thesis
    unfolding e
    by (rule peaks_spec_regular [OF generateRegularECG_spec [OF buffer_samples(2)]])
      (simp_all add: SINUS)
next
  case SVT
  obtain x g1 where x: "randRange 160 210 g = (x, g1)" by force
  have e: "SCENARIOS_generator rhythm g = generateSVT BUFFER_SECONDS (of_int \<lfloor>x\<rfloor>) g1"
    unfolding SVT SCENARIOS_generator_def x by simp
  show ?thesis
    unfolding e
    by (rule peaks_spec_regular [OF generateSVT_spec [OF buffer_samples(2)]])
      (simp_all add: SVT)
next
  case AFIB_RVR
  obtain x g1 where x: "randRange (- 20) 20 g = (x, g1)" by force
  have "- 20 \<le> x" using randRange_bounds [OF assms, of "- 20" 20] x by simp
  then have "- 20 \<le> \<lfloor>x\<rfloor>" by (simp add: le_floor_iff)
  then have hr: "140 + real_of_int \<lfloor>x\<rfloor> \<noteq> 0" by linarith
  have e: "SCENARIOS_generator rhythm g = generateAfibRvr BUFFER_SECONDS (140 + of_int \<lfloor>x\<rfloor>) g1"
    unfolding AFIB_RVR SCENARIOS_generator_def x by simp
  from generateAfibRvr_spec [OF buffer_samples(2) hr, of g1]
  have "\<exists>gb g'. generateAfibRvr BUFFER_SECONDS (140 + of_int \<lfloor>x\<rfloor>) g1 = Some (gb, g')
     \<and> length (buffer gb) = nat \<lfloor>BUFFER_SECONDS * SAMPLE_RATE\<rfloor>
     \<and> sorted_wrt (<) (rPeaks gb)
     \<and> (\<forall>p \<in> set (rPeaks gb). 0 \<le> p \<and> p < \<lfloor>BUFFER_SECONDS * SAMPLE_RATE\<rfloor> + 130)
     \<and> (\<forall>p \<in> set (butlast (rPeaks gb)). p < \<lfloor>BUFFER_SECONDS * SAMPLE_RATE\<rfloor>)
     \<and> (0 < \<lfloor>BUFFER_SECONDS * SAMPLE_RATE\<rfloor> \<longrightarrow> rPeaks gb \<noteq> [])"
    by (elim exE conjE, intro exI conjI) (auto dest: in_set_butlastD)
  then show ?thesis
    unfolding e by (rule peaks_spec_regular) (simp_all add: AFIB_RVR)
next
  case VT_PULSE
  obtain x g1 where x: "randRange 150 185 g = (x, g1)" by force
  have "150 \<le> x" "x \<le> 185" using randRange_bounds [OF assms, of 150 185] x by simp_all
  then have "150 \<le> \<lfloor>x\<rfloor>" "\<lfloor>x\<rfloor> \<le> 185" by (simp_all add: le_floor_iff floor_le_iff)
  then have hr: "150 \<le> real_of_int \<lfloor>x\<rfloor>" "real_of_int \<lfloor>x\<rfloor> \<le> 185" by simp_all
  have s: "0 < \<lfloor>BUFFER_SECONDS * SAMPLE_RATE\<rfloor>" by (simp add: buffer_samples)
  have e: "SCENARIOS_generator rhythm g = generateVT BUFFER_SECONDS (of_int \<lfloor>x\<rfloor>) g1"
    unfolding VT_PULSE SCENARIOS_generator_def x by simp
  from generateVT_peaks [OF hr buffer_samples(2) s, of g1]
  have "\<exists>gb g'. generateVT BUFFER_SECONDS (of_int \<lfloor>x\<rfloor>) g1 = Some (gb, g')
     \<and> length (buffer gb) = nat \<lfloor>BUFFER_SECONDS * SAMPLE_RATE\<rfloor>
     \<and> sorted_wrt (<) (rPeaks gb)
     \<and> (\<forall>p \<in> set (rPeaks gb). 0 \<le> p \<and> p < \<lfloor>BUFFER_SECONDS * SAMPLE_RATE\<rfloor> + 130)
     \<and> (\<forall>p \<in> set (butlast (rPeaks gb)). p < \<lfloor>BUFFER_SECONDS * SAMPLE_RATE\<rfloor>)
     \<and> (0 < \<lfloor>BUFFER_SECONDS * SAMPLE_RATE\<rfloor> \<longrightarrow> rPeaks gb \<noteq> [])"
    by blast
  then show ?thesis
    unfolding e by (rule peaks_spec_regular) (simp_all add: VT_PULSE)
next
  case PVT
  have hr: "150 \<le> (170::real)" "(170::real) \<le> 185" by simp_all
  have s: "0 < \<lfloor>BUFFER_SECONDS * SAMPLE_RATE\<rfloor>" by (simp add: buffer_samples)
  have e: "SCENARIOS_generator rhythm g = generateVT BUFFER_SECONDS 170 g"
    unfolding PVT SCENARIOS_generator_def by simp
  from generateVT_peaks [OF hr buffer_samples(2) s, of g]
  have "\<exists>gb g'. generateVT BUFFER_SECONDS 170 g = Some (gb, g')
     \<and> length (buffer gb) = nat \<lfloor>BUFFER_SECONDS * SAMPLE_RATE\<rfloor>
     \<and> sorted_wrt (<) (rPeaks gb)
     \<and> (\<forall>p \<in> set (rPeaks gb). 0 \<le> p \<and> p < \<lfloor>BUFFER_SECONDS * SAMPLE_RATE\<rfloor> + 130)
     \<and> (\<forall>p \<in> set (butlast (rPeaks gb)). p < \<lfloor>BUFFER_SECONDS * SAMPLE_RATE\<rfloor>)
     \<and> (0 < \<lfloor>BUFFER_SECONDS * SAMPLE_RATE\<rfloor> \<longrightarrow> rPeaks gb \<noteq> [])"
    by blast
  then show ?thesis
    unfolding e by (rule peaks_spec_regular) (simp_all add: PVT)
next
  case VF
  have e: "SCENARIOS_generator rhythm g = generateVF BUFFER_SECONDS g"
    unfolding VF SCENARIOS_generator_def by simp
  show ?thesis
    unfolding e
    by (rule peaks_spec_empty [OF generateVF_spec [OF buffer_samples(2)]]) (simp add: VF)
next
  case ASYSTOLE
  have e: "SCENARIOS_generator rhythm g = generateAsystole BUFFER_SECONDS g"
    unfolding ASYSTOLE SCENARIOS_generator_def by simp
  show ?thesis
    unfolding e
    by (rule peaks_spec_empty [OF generateAsystole_spec [OF buffer_samples(2)]])
      (simp add: ASYSTOLE)
next
  case PEA_NARROW
  have e: "SCENARIOS_generator rhythm g = generateRegularECG BUFFER_SECONDS 50 85
        \<lparr>opt_pWave = None, opt_tWave = None, opt_amp = Some 0.85,
          opt_prMsMin = Some 140, opt_prMsMax = Some 220\<rparr> g"
    unfolding PEA_NARROW SCENARIOS_generator_def generatePEA_narrow_def by simp
  show ?thesis
    unfolding e
    by (rule peaks_spec_regular [OF generateRegularECG_spec [OF buffer_samples(2)]])
      (simp_all add: PEA_NARROW)
qed

subsection \<open>The generated buffers: the claims\<close>

text \<open>
  C6. For every random outcome, the generator of every rhythm returns a buffer, and its
  \<^verbatim>\<open>rPeaks\<close> are empty exactly for VF and ASYSTOLE: empty for these two, non-empty for
  SINUS, SVT, AFIB\_RVR, VT\_PULSE, PVT and PEA\_NARROW.
\<close>

theorem rPeaks_empty_iff_VF_ASYSTOLE:
  assumes "rng_ok g"
  shows "\<exists>gb g'. SCENARIOS_generator rhythm g = Some (gb, g')
           \<and> (rPeaks gb = [] \<longleftrightarrow> rhythm = VF \<or> rhythm = ASYSTOLE)"
  using SCENARIOS_generator_spec [OF assms, of rhythm] by blast

theorem rPeaks_empty_iff_VF_ASYSTOLE_witness:
  "rng_ok (sconst (1/2))
   \<and> (\<exists>gb g'. SCENARIOS_generator VF (sconst (1/2)) = Some (gb, g') \<and> rPeaks gb = [])
   \<and> (\<exists>gb g'. SCENARIOS_generator ASYSTOLE (sconst (1/2)) = Some (gb, g') \<and> rPeaks gb = [])
   \<and> (\<exists>gb g'. SCENARIOS_generator SINUS (sconst (1/2)) = Some (gb, g') \<and> rPeaks gb \<noteq> [])
   \<and> (\<exists>gb g'. SCENARIOS_generator PVT (sconst (1/2)) = Some (gb, g') \<and> rPeaks gb \<noteq> [])"
proof -
  have h: "rng_ok (sconst (1/2))" by (simp add: rng_ok_def)
  show ?thesis
    using h rPeaks_empty_iff_VF_ASYSTOLE [OF h, of VF]
      rPeaks_empty_iff_VF_ASYSTOLE [OF h, of ASYSTOLE]
      rPeaks_empty_iff_VF_ASYSTOLE [OF h, of SINUS]
      rPeaks_empty_iff_VF_ASYSTOLE [OF h, of PVT]
    by simp
qed

text \<open>
  C7. For every rhythm and every random outcome the synthesis ends and returns a buffer
  (of 90000 samples): no loop runs forever and nothing is divided by zero, either of which
  the model would report as \<^term>\<open>None\<close>. The clamps that bound the loops from below: a beat
  of \<^verbatim>\<open>generateRegularECG\<close> always completes and advances the time by at least
  \<open>60 / 190\<close> seconds (the heart rate of a beat is clamped to \<open>[45, 190]\<close>), a beat of
  \<^verbatim>\<open>generateAfibRvr\<close> by at least 0.28 seconds, and the cycle of \<^verbatim>\<open>generateVT\<close> is at
  least 20 samples long whatever the heart rate.
\<close>

theorem synthesis_terminates:
  assumes "rng_ok g"
  shows "(\<exists>gb g'. SCENARIOS_generator rhythm g = Some (gb, g') \<and> length (buffer gb) = 90000)
       \<and> (\<exists>st'. regular_beat c st = Some st' \<and> st_t st + 60 / 190 \<le> st_t st')
       \<and> (\<exists>st'. afib_beat meanRR st = Some st' \<and> st_t st + 0.28 \<le> st_t st')
       \<and> 20 \<le> vt_cycleSamples cycleSec"
proof -
  have "\<exists>gb g'. SCENARIOS_generator rhythm g = Some (gb, g') \<and> length (buffer gb) = 90000"
    using SCENARIOS_generator_spec [OF assms, of rhythm] by blast
  moreover have "\<exists>st'. regular_beat c st = Some st' \<and> st_t st + 60 / 190 \<le> st_t st'"
    using regular_beat_Some [of c st] by auto
  moreover have "\<exists>st'. afib_beat meanRR st = Some st' \<and> st_t st + 0.28 \<le> st_t st'"
    using afib_beat_Some [of meanRR st] by blast
  moreover have "20 \<le> vt_cycleSamples cycleSec"
    by (simp add: vt_cycleSamples_def)
  ultimately show ?thesis by blast
qed

theorem synthesis_terminates_witness:
  "rng_ok (sconst (1/2))
   \<and> (\<exists>gb g'. SCENARIOS_generator SINUS (sconst (1/2)) = Some (gb, g')
         \<and> length (buffer gb) = 90000)
   \<and> (\<exists>gb g'. SCENARIOS_generator VT_PULSE (sconst (1/2)) = Some (gb, g')
         \<and> length (buffer gb) = 90000)
   \<and> 20 \<le> vt_cycleSamples 0"
proof -
  have h: "rng_ok (sconst (1/2))" by (simp add: rng_ok_def)
  show ?thesis
    using h synthesis_terminates [OF h, where rhythm = SINUS and cycleSec = 0]
      synthesis_terminates [OF h, where rhythm = VT_PULSE and cycleSec = 0]
    by blast
qed

text \<open>
  X1. For every rhythm and every random outcome the generator returns a buffer of 90000
  samples whose \<^verbatim>\<open>rPeaks\<close> are strictly increasing and non-negative; every one of them
  but the last is an index of the buffer, and the last is less than 130 samples past its
  end.
\<close>

theorem rPeaks_increasing_all_but_last_in_bounds:
  assumes "rng_ok g"
  shows "\<exists>gb g'. SCENARIOS_generator rhythm g = Some (gb, g')
           \<and> length (buffer gb) = 90000
           \<and> sorted_wrt (<) (rPeaks gb)
           \<and> (\<forall>p \<in> set (rPeaks gb). 0 \<le> p \<and> p < int (length (buffer gb)) + 130)
           \<and> (\<forall>p \<in> set (butlast (rPeaks gb)). p < int (length (buffer gb)))"
proof -
  from SCENARIOS_generator_spec [OF assms, of rhythm]
  obtain gb g' where "SCENARIOS_generator rhythm g = Some (gb, g')"
    "length (buffer gb) = 90000" "sorted_wrt (<) (rPeaks gb)"
    "\<forall>p \<in> set (rPeaks gb). 0 \<le> p \<and> p < 90000 + 130"
    "\<forall>p \<in> set (butlast (rPeaks gb)). p < 90000"
    by blast
  then show ?thesis
    by (intro exI [of _ gb] exI [of _ g']) simp
qed

theorem rPeaks_increasing_all_but_last_in_bounds_witness:
  "rng_ok (sconst (1/2))
   \<and> (\<exists>gb g'. SCENARIOS_generator SINUS (sconst (1/2)) = Some (gb, g')
         \<and> length (buffer gb) = 90000 \<and> sorted_wrt (<) (rPeaks gb))"
proof -
  have h: "rng_ok (sconst (1/2))" by (simp add: rng_ok_def)
  show ?thesis
    using h rPeaks_increasing_all_but_last_in_bounds [OF h, of SINUS]
    by blast
qed

subsection \<open>R peaks past the end of the buffer\<close>

lemma vt_pulse_past_the_end:
  "\<exists>gb g'. SCENARIOS_generator VT_PULSE (3/32 ## sconst (1/2)) = Some (gb, g')
     \<and> length (buffer gb) = 90000
     \<and> rPeaks gb \<noteq> []
     \<and> last (rPeaks gb) = 90027
     \<and> \<not> last (rPeaks gb) < int (length (buffer gb))"
proof -
  have x: "randRange 150 185 (3/32 ## sconst (1/2)) = (4905/32, sconst (1/2))"
    by (simp add: randRange_def random_def)
  have fl: "\<lfloor>4905/32 :: real\<rfloor> = 153" by simp
  have e: "SCENARIOS_generator VT_PULSE (3/32 ## sconst (1/2))
      = generateVT BUFFER_SECONDS 153 (sconst (1/2))"
    unfolding SCENARIOS_generator_def x by (simp add: fl)
  have cs: "vt_cycleSamples (60 / 153) = 196"
    by (simp add: vt_cycleSamples_def SAMPLE_RATE_def)
  from generateVT_spec [OF buffer_samples(2), of 153 "sconst (1/2)"]
  obtain gb g' K where g: "generateVT BUFFER_SECONDS 153 (sconst (1/2)) = Some (gb, g')"
    and l: "length (buffer gb) = 90000"
    and k: "0 \<le> K" "90000 \<le> K * 196" "0 < K \<longrightarrow> (K - 1) * 196 < 90000"
    and p: "rPeaks gb = map (\<lambda>k. round (of_int (int k * 196) + 0.32 * real_of_int 196))
              [0 ..< nat K]"
    unfolding cs buffer_samples(1) by auto
  have "0 < K" using k(2) by linarith
  then have "(K - 1) * 196 < 90000" using k(3) by simp
  then have K: "K = 460" using k(2) by presburger
  have n: "nat K = Suc 459" using K by simp
  have u: "[0 ..< Suc 459] = [0 ..< 459] @ [459]"
    by (rule upt_Suc_append) simp
  have "last (rPeaks gb) = round (of_int (int 459 * 196) + 0.32 * real_of_int 196)"
    unfolding p n u by (simp only: map_append list.map last_snoc)
  also have "\<dots> = 90027" by (simp add: round_def)
  finally have "last (rPeaks gb) = 90027" .
  moreover have "rPeaks gb \<noteq> []"
    unfolding p n u by (simp only: map_append list.map append_is_Nil_conv list.distinct simp_thms)
  ultimately show ?thesis
    unfolding e using g l by simp
qed

lemma generateRegularECG_unfold:
  assumes "0 \<le> seconds"
    and "regular_loop
          \<lparr>c_samples = \<lfloor>seconds * SAMPLE_RATE\<rfloor>, c_baseHr = hr, c_qrsWidthMs = qrsWidthMs,
           c_showP = (opt_pWave opts \<noteq> Some False),
           c_showT = (opt_tWave opts \<noteq> Some False),
           c_baseAmp = (case opt_amp opts of Some a \<Rightarrow> a | None \<Rightarrow> 1.0),
           c_prMin = (case opt_prMsMin opts of Some a \<Rightarrow> a | None \<Rightarrow> 120),
           c_prMax = (case opt_prMsMax opts of Some a \<Rightarrow> a | None \<Rightarrow> 200)\<rparr>
          \<lparr>st_t = 0, st_arr = replicate (nat \<lfloor>seconds * SAMPLE_RATE\<rfloor>) 0, st_rPeaks = [],
           st_rng = g\<rparr> = Some st'"
  shows "\<exists>gb g'. generateRegularECG seconds hr qrsWidthMs opts g = Some (gb, g')
     \<and> rPeaks gb = st_rPeaks st' \<and> length (buffer gb) = length (st_arr st')"
proof -
  have new: "new_Float32Array \<lfloor>seconds * SAMPLE_RATE\<rfloor>
      = Some (replicate (nat \<lfloor>seconds * SAMPLE_RATE\<rfloor>) 0)"
    using assms(1) by (simp add: new_Float32Array_def SAMPLE_RATE_def)
  let ?f = "fold regular_noise_step [0..<nat \<lfloor>seconds * SAMPLE_RATE\<rfloor>]
              (0, st_arr st', st_rng st')"
  have "generateRegularECG seconds hr qrsWidthMs opts g
      = Some (\<lparr>buffer = fst (snd ?f), rPeaks = st_rPeaks st'\<rparr>, snd (snd ?f))"
    unfolding generateRegularECG_def Let_def new bind.bind_lunit assms(2)
    by (simp add: split_def)
  then show ?thesis
    by (simp add: regular_noise_length)
qed

lemma sinus_loop_past_the_end:
  fixes c :: ecg_consts
  assumes c: "c_samples c = 90000" "c_baseHr c = 70" "c_prMin c = 120" "c_prMax c = 200"
    and l: "length arr0 = 90000"
  shows "\<exists>st'. regular_loop c
            \<lparr>st_t = 0, st_arr = arr0, st_rPeaks = [], st_rng = 3/4 ## sconst (1/2)\<rparr> = Some st'
     \<and> length (st_arr st') = 90000 \<and> st_rPeaks st' \<noteq> [] \<and> last (st_rPeaks st') = 90073"
proof -
  define T where "T = (\<lambda>k::nat. 1200/1421 + real k * (6/7) :: real)"
  define I where "I = (\<lambda>s::beat_state. length (st_arr s) = 90000 \<and>
     ((st_t s = 0 \<and> st_rPeaks s = [] \<and> st_rng s = 3/4 ## sconst (1/2))
      \<or> (st_rng s = sconst (1/2) \<and> (\<exists>k::nat. st_t s = T k
            \<and> (0 < k \<longrightarrow> T (k - 1) * 500 < 90000)
            \<and> st_rPeaks s \<noteq> []
            \<and> last (st_rPeaks s) = (if k = 0 then 80 else \<lfloor>T (k - 1) * 500\<rfloor> + 80)))))"
  have init: "I \<lparr>st_t = 0, st_arr = arr0, st_rPeaks = [], st_rng = 3/4 ## sconst (1/2)\<rparr>"
    using l by (simp add: I_def)
  have step: "I s'" if i: "I s" and gd: "st_t s * SAMPLE_RATE < of_int (c_samples c)"
    and b: "regular_beat c s = Some s'" for s s'
  proof -
    from regular_beat_exact [of c s] b
    have t: "st_t s' = st_t s + 60 / clamp (fst (jitter 70 0.03 (st_rng s))) 45 190"
      and la: "length (st_arr s') = length (st_arr s)"
      and pk: "st_rPeaks s' = st_rPeaks s
          @ [\<lfloor>st_t s * SAMPLE_RATE\<rfloor>
             + \<lfloor>clamp (fst (randRange 120 200 (stl (st_rng s)))) 80 260 / 1000 * SAMPLE_RATE\<rfloor>]"
      and rg: "st_rng s' = stl (stl (stl (stl (st_rng s))))"
      unfolding c by auto
    have len: "length (st_arr s') = 90000" using la i by (simp add: I_def)
    from i consider
      (first) "st_t s = 0" "st_rPeaks s = []" "st_rng s = 3/4 ## sconst (1/2)"
      | (later) k where "st_rng s = sconst (1/2)" "st_t s = T k" "st_rPeaks s \<noteq> []"
      unfolding I_def by blast
    then show ?thesis
    proof cases
      case first
      have "st_t s' = T 0"
        unfolding t first by (simp add: jitter_eq clamp_def T_def)
      moreover have "st_rPeaks s' = [80]"
        unfolding pk first by (simp add: randRange_eq clamp_def SAMPLE_RATE_def)
      moreover have "st_rng s' = sconst (1/2)"
        unfolding rg first by simp
      ultimately show ?thesis
        using len unfolding I_def by (intro conjI disjI2 exI [of _ 0]) simp_all
    next
      case later
      have "st_t s' = T k + 6/7"
        unfolding t later by (simp add: jitter_eq clamp_def)
      moreover have "T (Suc k) = T k + 6/7"
        by (simp add: T_def field_simps)
      ultimately have t': "st_t s' = T (Suc k)"
        by simp
      have g': "T k * 500 < 90000"
        using gd unfolding later c by (simp add: SAMPLE_RATE_def)
      have "st_rPeaks s' = st_rPeaks s @ [\<lfloor>T k * 500\<rfloor> + 80]"
        unfolding pk later by (simp add: randRange_eq clamp_def SAMPLE_RATE_def)
      then have p': "st_rPeaks s' \<noteq> []" "last (st_rPeaks s') = \<lfloor>T k * 500\<rfloor> + 80"
        by simp_all
      have r': "st_rng s' = sconst (1/2)"
        unfolding rg later by simp
      show ?thesis
        using len t' g' p' r' unfolding I_def by (intro conjI disjI2 exI [of _ "Suc k"]) simp_all
    qed
  qed
  have "\<exists>st'. regular_loop c
            \<lparr>st_t = 0, st_arr = arr0, st_rPeaks = [], st_rng = 3/4 ## sconst (1/2)\<rparr> = Some st'
      \<and> I st' \<and> \<not> st_t st' * SAMPLE_RATE < of_int (c_samples c)"
    by (rule regular_loop_rule [where I = I, OF init]) (rule step)
  then obtain st' where r: "regular_loop c
            \<lparr>st_t = 0, st_arr = arr0, st_rPeaks = [], st_rng = 3/4 ## sconst (1/2)\<rparr> = Some st'"
    and i: "I st'" and e: "\<not> st_t st' * 500 < 90000"
    unfolding c SAMPLE_RATE_def by auto
  from i e obtain k where k: "st_t st' = T k" "0 < k \<longrightarrow> T (k - 1) * 500 < 90000"
    "st_rPeaks st' \<noteq> []"
    "last (st_rPeaks st') = (if k = 0 then 80 else \<lfloor>T (k - 1) * 500\<rfloor> + 80)"
    unfolding I_def by auto
  have Tlow: "90000 \<le> (1200/1421 + x * (6/7)) * 500" if "210 \<le> x" for x :: real
    using that by (simp add: algebra_simps)
  have "\<not> k \<le> 209"
  proof
    assume "k \<le> 209"
    then have "real k \<le> 209" by simp
    then have "T k * 500 < 90000" by (simp add: T_def)
    then show False using e k(1) by simp
  qed
  moreover have "\<not> 211 \<le> k"
  proof
    assume a: "211 \<le> k"
    then have "210 \<le> real (k - 1)" by linarith
    then have "90000 \<le> T (k - 1) * 500" unfolding T_def by (rule Tlow)
    then show False using k(2) a by simp
  qed
  ultimately have "k = 210" by simp
  then have "last (st_rPeaks st') = \<lfloor>T 209 * 500\<rfloor> + 80"
    using k(4) by simp
  also have "\<dots> = 90073"
    by (simp add: T_def)
  finally show ?thesis
    using r i k(3) unfolding I_def by simp
qed

lemma sinus_past_the_end:
  "\<exists>gb g'. SCENARIOS_generator SINUS (1/2 ## 3/4 ## sconst (1/2)) = Some (gb, g')
     \<and> length (buffer gb) = 90000
     \<and> rPeaks gb \<noteq> []
     \<and> last (rPeaks gb) = 90073"
proof -
  let ?opts = "\<lparr>opt_pWave = None, opt_tWave = None, opt_amp = Some 1.0,
          opt_prMsMin = Some 120, opt_prMsMax = Some 200\<rparr>"
  let ?c = "\<lparr>c_samples = \<lfloor>BUFFER_SECONDS * SAMPLE_RATE\<rfloor>, c_baseHr = 70, c_qrsWidthMs = 85,
           c_showP = (opt_pWave ?opts \<noteq> Some False),
           c_showT = (opt_tWave ?opts \<noteq> Some False),
           c_baseAmp = (case opt_amp ?opts of Some a \<Rightarrow> a | None \<Rightarrow> 1.0),
           c_prMin = (case opt_prMsMin ?opts of Some a \<Rightarrow> a | None \<Rightarrow> 120),
           c_prMax = (case opt_prMsMax ?opts of Some a \<Rightarrow> a | None \<Rightarrow> 200)\<rparr>"
  have x: "randRange (- 8) 8 (1/2 ## 3/4 ## sconst (1/2)) = (0, 3/4 ## sconst (1/2))"
    by (simp add: randRange_def random_def)
  have e: "SCENARIOS_generator SINUS (1/2 ## 3/4 ## sconst (1/2))
      = generateRegularECG BUFFER_SECONDS 70 85 ?opts (3/4 ## sconst (1/2))"
    unfolding SCENARIOS_generator_def x by simp
  have "\<exists>st'. regular_loop ?c
            \<lparr>st_t = 0, st_arr = replicate (nat \<lfloor>BUFFER_SECONDS * SAMPLE_RATE\<rfloor>) 0,
             st_rPeaks = [], st_rng = 3/4 ## sconst (1/2)\<rparr> = Some st'
     \<and> length (st_arr st') = 90000 \<and> st_rPeaks st' \<noteq> [] \<and> last (st_rPeaks st') = 90073"
    by (rule sinus_loop_past_the_end) (simp_all add: buffer_samples)
  then obtain st' where r: "regular_loop ?c
            \<lparr>st_t = 0, st_arr = replicate (nat \<lfloor>BUFFER_SECONDS * SAMPLE_RATE\<rfloor>) 0,
             st_rPeaks = [], st_rng = 3/4 ## sconst (1/2)\<rparr> = Some st'"
    and p: "length (st_arr st') = 90000" "st_rPeaks st' \<noteq> []" "last (st_rPeaks st') = 90073"
    by blast
  from generateRegularECG_unfold [OF buffer_samples(2) r] p
  show ?thesis
    unfolding e by auto
qed

text \<open>
  C1 says that, for every rhythm and every random outcome, the \<^verbatim>\<open>rPeaks\<close> of the
  generated buffer are strictly increasing and each of them lies in \<open>[0, buffer.length)\<close>.
  They are strictly increasing (X1 above), but the last of them can lie past the end of
  the buffer: the loops only test that a beat \<^emph>\<open>starts\<close> inside the buffer and then record
  its R peak some samples later. Two runs in which it does:

  \<^item> VT\_PULSE with 3/32 as the first draw: the heart rate is \<open>\<lfloor>150 + 35 \<cdot> 3/32\<rfloor> = 153\<close>, a
    cycle is \<open>\<lfloor>30000 / 153\<rfloor> = 196\<close> samples, and the last cycle, number 459, starts at sample
    89964 of 90000; its R peak is recorded at \<open>round (89964 + 0.32 \<cdot> 196) = 90027\<close>.
  \<^item> SINUS with the draws 1/2 (heart rate 70), 3/4 (the first beat runs at 71.05 bpm) and
    1/2 ever after (70 bpm, PR interval 160 ms = 80 samples): beat number 210 starts at
    sample 89993 of 90000, and its R peak is recorded at \<open>89993 + 80 = 90073\<close>.
\<close>

theorem rPeaks_past_the_end:
  "(\<exists>gb g'. SCENARIOS_generator VT_PULSE (3/32 ## sconst (1/2)) = Some (gb, g')
      \<and> length (buffer gb) = 90000 \<and> rPeaks gb \<noteq> []
      \<and> last (rPeaks gb) = 90027
      \<and> \<not> last (rPeaks gb) < int (length (buffer gb)))
   \<and> (\<exists>gb g'. SCENARIOS_generator SINUS (1/2 ## 3/4 ## sconst (1/2)) = Some (gb, g')
      \<and> length (buffer gb) = 90000 \<and> rPeaks gb \<noteq> []
      \<and> last (rPeaks gb) = 90073
      \<and> \<not> last (rPeaks gb) < int (length (buffer gb)))"
proof
  show "\<exists>gb g'. SCENARIOS_generator VT_PULSE (3/32 ## sconst (1/2)) = Some (gb, g')
      \<and> length (buffer gb) = 90000 \<and> rPeaks gb \<noteq> []
      \<and> last (rPeaks gb) = 90027
      \<and> \<not> last (rPeaks gb) < int (length (buffer gb))"
    by (rule vt_pulse_past_the_end)
  from sinus_past_the_end
  obtain gb g' where "SCENARIOS_generator SINUS (1/2 ## 3/4 ## sconst (1/2)) = Some (gb, g')"
    "length (buffer gb) = 90000" "rPeaks gb \<noteq> []" "last (rPeaks gb) = 90073"
    by blast
  then show "\<exists>gb g'. SCENARIOS_generator SINUS (1/2 ## 3/4 ## sconst (1/2)) = Some (gb, g')
      \<and> length (buffer gb) = 90000 \<and> rPeaks gb \<noteq> []
      \<and> last (rPeaks gb) = 90073
      \<and> \<not> last (rPeaks gb) < int (length (buffer gb))"
    by (intro exI [of _ gb] exI [of _ g']) simp
qed

end
